theory Spec2Isabelle
  imports Main "HOL-Library.AList" "HOL-Library.Char_ord" "HOL-Library.List_Lexorder"
begin

section \<open>Data model of the in-memory checkpoint saver\<close>

text \<open>
  The embedding follows \<^verbatim>\<open>libs/checkpoint/langgraph/checkpoint/memory/__init__.py\<close>.
  A Python \<^verbatim>\<open>dict\<close> is an association list in insertion order: \<open>map_of\<close> is the lookup,
  \<open>AList.update\<close> is item assignment (in place for a key that is present, appended
  otherwise) and \<open>AList.delete\<close> is \<^verbatim>\<open>del\<close>. Strings are ordered as Python orders them,
  lexicographically by character.
\<close>

type_synonym bytes = string

text \<open>What \<^verbatim>\<open>serde.dumps_typed\<close> returns: a type tag and a payload.\<close>

type_synonym typed = "string \<times> bytes"

text \<open>A channel version: \<^verbatim>\<open>str | int\<close> (the \<^verbatim>\<open>float\<close> alternative is left out).\<close>

datatype version = VInt int | VStr string

datatype error =
    KeyError string
  | ValueError
  | NotImplementedError
  | SerializationError
  | InvalidReference

text \<open>
  The \<^verbatim>\<open>configurable\<close> part of a \<^verbatim>\<open>RunnableConfig\<close>: the checkpoint address. \<open>None\<close> is
  a key that is absent.
\<close>

record config =
  thread_id :: string
  checkpoint_ns :: "string option"
  checkpoint_id :: "string option"

text \<open>
  The \<^verbatim>\<open>Checkpoint\<close> typed dictionary. \<^verbatim>\<open>put\<close> pops the key \<^verbatim>\<open>channel_values\<close> from its
  copy, so that key may be absent (\<open>None\<close>); the other fields of the dictionary that the
  saver never reads are carried in \<open>other_fields\<close>.
\<close>

record ('v, 'o) checkpoint =
  ckpt_id :: string
  channel_values :: "(string \<times> 'v) list option"
  channel_versions :: "(string \<times> version) list"
  other_fields :: 'o

text \<open>Checkpoint metadata: a dictionary whose values may be Python's \<^verbatim>\<open>None\<close>.\<close>

type_synonym 'mv metadata = "(string \<times> 'mv option) list"

record ('v, 'o, 'mv) checkpoint_tuple =
  config :: config
  checkpoint :: "('v, 'o) checkpoint"
  metadata :: "'mv metadata"
  parent_config :: "config option"
  pending_writes :: "(string \<times> string \<times> 'v) list"

text \<open>
  What the saver imports and does not define: the serializer (\<^verbatim>\<open>dumps_typed\<close> and
  \<^verbatim>\<open>loads_typed\<close>, one pair for each kind of object the saver hands to it),
  \<^verbatim>\<open>get_checkpoint_metadata\<close> and the table \<^verbatim>\<open>WRITES_IDX_MAP\<close> are parameters.
\<close>

record ('v, 'o, 'mv) env =
  dumps_ckpt :: "('v, 'o) checkpoint \<Rightarrow> typed"
  loads_ckpt :: "typed \<Rightarrow> ('v, 'o) checkpoint"
  dumps_meta :: "'mv metadata \<Rightarrow> typed"
  loads_meta :: "typed \<Rightarrow> 'mv metadata"
  dumps_val :: "'v \<Rightarrow> typed"
  loads_val :: "typed \<Rightarrow> 'v"
  get_checkpoint_metadata :: "config \<Rightarrow> 'mv metadata \<Rightarrow> 'mv metadata"
  WRITES_IDX_MAP :: "(string \<times> int) list"

text \<open>A stored checkpoint: serialized core state, serialized metadata, parent id.\<close>

type_synonym entry = "typed \<times> typed \<times> string option"

type_synonym checkpoints = "(string \<times> entry) list"

type_synonym storage_t = "(string \<times> (string \<times> checkpoints) list) list"

type_synonym inner_writes = "((string \<times> int) \<times> (string \<times> string \<times> typed \<times> string)) list"

type_synonym writes_t = "((string \<times> string \<times> string) \<times> inner_writes) list"

type_synonym blobs_t = "((string \<times> string \<times> string \<times> version) \<times> typed) list"

record saver =
  storage :: storage_t
  writes :: writes_t
  blobs :: blobs_t

definition empty_saver :: saver where
  "empty_saver = \<lparr>storage = [], writes = [], blobs = []\<rparr>"

text \<open>Objects that are mutated in place live in a heap; a reference is an index.\<close>

type_synonym ('v, 'o) heap = "('v, 'o) checkpoint list"

section \<open>Helpers\<close>

text \<open>
  Modelled from the spec: \<^verbatim>\<open>get_checkpoint_id\<close> is imported from the base module; the spec
  gives the address as the tuple of thread id, namespace and an optional checkpoint id,
  so the function reads the checkpoint id of the address.
\<close>

definition get_checkpoint_id :: "config \<Rightarrow> string option" where
  "get_checkpoint_id cfg = checkpoint_id cfg"

text \<open>Python's truth value of \<^verbatim>\<open>str | None\<close>: \<^verbatim>\<open>None\<close> and the empty string are false.\<close>

definition truthy :: "string option \<Rightarrow> bool" where
  "truthy x = (case x of None \<Rightarrow> False | Some s \<Rightarrow> s \<noteq> [])"

text \<open>\<^verbatim>\<open>d[k]\<close> on a \<^verbatim>\<open>defaultdict\<close>: a missing key is inserted with the default.\<close>

definition getitem_default :: "('k \<times> 'a) list \<Rightarrow> 'k \<Rightarrow> 'a \<Rightarrow> ('k \<times> 'a) list \<times> 'a" where
  "getitem_default d k dflt =
     (case map_of d k of Some v \<Rightarrow> (d, v) | None \<Rightarrow> (d @ [(k, dflt)], dflt))"

text \<open>\<^verbatim>\<open>self.storage[thread_id][checkpoint_ns]\<close>, with both default insertions.\<close>

definition storage_getitem :: "storage_t \<Rightarrow> string \<Rightarrow> string \<Rightarrow> storage_t \<times> checkpoints" where
  "storage_getitem st t ns =
     (let (st1, nss) = getitem_default st t [];
          (nss1, cps) = getitem_default nss ns []
      in (AList.update t nss1 st1, cps))"

text \<open>\<^verbatim>\<open>max\<close> of a sequence: \<^verbatim>\<open>ValueError\<close> (here \<open>None\<close>) when it is empty.\<close>

fun py_max :: "'a::linorder list \<Rightarrow> 'a option" where
  "py_max [] = None"
| "py_max (x # xs) = Some (foldl (\<lambda>m y. if m < y then y else m) x xs)"

text \<open>
  \<^verbatim>\<open>sorted(items, key=lambda x: x[0], reverse=True)\<close>: a stable sort that keeps the order
  of equal keys, which is a stable ascending sort of the reversed list, reversed.
\<close>

definition sorted_reverse :: "('k::linorder \<times> 'a) list \<Rightarrow> ('k \<times> 'a) list" where
  "sorted_reverse items = rev (sort_key fst (rev items))"

section \<open>Reading\<close>

fun load_blobs_loop ::
  "('v, 'o, 'mv) env \<Rightarrow> blobs_t \<Rightarrow> string \<Rightarrow> string \<Rightarrow> (string \<times> version) list \<Rightarrow>
   (string \<times> 'v) list \<Rightarrow> (string \<times> 'v) list" where
  "load_blobs_loop env bl t ns [] vals = vals"
| "load_blobs_loop env bl t ns ((k, v) # rest) vals =
     (case map_of bl (t, ns, k, v) of
        None \<Rightarrow> load_blobs_loop env bl t ns rest vals
      | Some vv \<Rightarrow>
          if fst vv \<noteq> ''empty''
          then load_blobs_loop env bl t ns rest (AList.update k (loads_val env vv) vals)
          else load_blobs_loop env bl t ns rest vals)"

definition load_blobs ::
  "('v, 'o, 'mv) env \<Rightarrow> saver \<Rightarrow> string \<Rightarrow> string \<Rightarrow> (string \<times> version) list \<Rightarrow> (string \<times> 'v) list" where
  "load_blobs env s t ns versions = load_blobs_loop env (blobs s) t ns versions []"

text \<open>
  The three places that build a \<^verbatim>\<open>CheckpointTuple\<close> build its checkpoint, pending writes
  and parent config by the same expressions; they are written once here.
\<close>

definition merged_checkpoint ::
  "('v, 'o, 'mv) env \<Rightarrow> saver \<Rightarrow> string \<Rightarrow> string \<Rightarrow> typed \<Rightarrow> ('v, 'o) checkpoint" where
  "merged_checkpoint env s t ns ck =
     (let checkpoint_' = loads_ckpt env ck
      in checkpoint_'\<lparr>channel_values :=
           Some (load_blobs env s t ns (channel_versions checkpoint_'))\<rparr>)"

definition decode_writes ::
  "('v, 'o, 'mv) env \<Rightarrow> inner_writes \<Rightarrow> (string \<times> string \<times> 'v) list" where
  "decode_writes env ws = map (\<lambda>(_, (tid, c, v, _)). (tid, c, loads_val env v)) ws"

definition parent_of :: "string \<Rightarrow> string \<Rightarrow> string option \<Rightarrow> config option" where
  "parent_of t ns parent_checkpoint_id =
     (if truthy parent_checkpoint_id
      then Some \<lparr>thread_id = t, checkpoint_ns = Some ns, checkpoint_id = parent_checkpoint_id\<rparr>
      else None)"

definition get_tuple ::
  "('v, 'o, 'mv) env \<Rightarrow> saver \<Rightarrow> config \<Rightarrow> saver \<times> ('v, 'o, 'mv) checkpoint_tuple option" where
  "get_tuple env s cfg =
     (let t = thread_id cfg;
          ns = (case checkpoint_ns cfg of None \<Rightarrow> [] | Some n \<Rightarrow> n);
          (st1, checkpoints) = storage_getitem (storage s) t ns;
          s1 = s\<lparr>storage := st1\<rparr>
      in if truthy (get_checkpoint_id cfg)
         then
           (case map_of checkpoints (the (get_checkpoint_id cfg)) of
              None \<Rightarrow> (s1, None)
            | Some (ck, md, parent_checkpoint_id) \<Rightarrow>
                let cid = the (get_checkpoint_id cfg);
                    (w1, ws) = getitem_default (writes s1) (t, ns, cid) [];
                    s2 = s1\<lparr>writes := w1\<rparr>
                in (s2, Some \<lparr>config = cfg,
                      checkpoint = merged_checkpoint env s2 t ns ck,
                      metadata = loads_meta env md,
                      parent_config = parent_of t ns parent_checkpoint_id,
                      pending_writes = decode_writes env ws\<rparr>))
         else
           (case py_max (map fst checkpoints) of
              None \<Rightarrow> (s1, None)
            | Some cid \<Rightarrow>
                (case map_of checkpoints cid of
                   None \<Rightarrow> (s1, None)
                 | Some (ck, md, parent_checkpoint_id) \<Rightarrow>
                     let (w1, ws) = getitem_default (writes s1) (t, ns, cid) [];
                         s2 = s1\<lparr>writes := w1\<rparr>
                     in (s2, Some \<lparr>config = \<lparr>thread_id = t, checkpoint_ns = Some ns,
                                              checkpoint_id = Some cid\<rparr>,
                           checkpoint = merged_checkpoint env s2 t ns ck,
                           metadata = loads_meta env md,
                           parent_config = parent_of t ns parent_checkpoint_id,
                           pending_writes = decode_writes env ws\<rparr>))))"


text \<open>\<^verbatim>\<open>metadata.get(query_key)\<close>: Python's \<^verbatim>\<open>None\<close> when the key is absent.\<close>

definition md_get :: "'mv metadata \<Rightarrow> string \<Rightarrow> 'mv option" where
  "md_get md k = (case map_of md k of None \<Rightarrow> None | Some x \<Rightarrow> x)"

text \<open>
  The innermost loop of \<^verbatim>\<open>list\<close>, over the checkpoints of one namespace as sorted. The
  generator is run to its end: the result is the limit that is left, the saver (reading
  \<^verbatim>\<open>self.writes[...]\<close> inserts a default) and the tuples yielded. \<^verbatim>\<open>break\<close> ends this loop
  only.
\<close>

fun list_checkpoints_loop ::
  "('v, 'o, 'mv) env \<Rightarrow> string \<Rightarrow> string \<Rightarrow> string option \<Rightarrow> config option \<Rightarrow>
   'mv metadata option \<Rightarrow> checkpoints \<Rightarrow> int option \<Rightarrow> saver \<Rightarrow>
   int option \<times> saver \<times> ('v, 'o, 'mv) checkpoint_tuple list" where
  "list_checkpoints_loop env t ns config_checkpoint_id before_cfg flt [] limit s = (limit, s, [])"
| "list_checkpoints_loop env t ns config_checkpoint_id before_cfg flt
       ((cid, (ck, metadata_b, parent_checkpoint_id)) # rest) limit s =
     (if truthy config_checkpoint_id \<and> cid \<noteq> the config_checkpoint_id
      then list_checkpoints_loop env t ns config_checkpoint_id before_cfg flt rest limit s
      else if (case before_cfg of
                 None \<Rightarrow> False
               | Some b \<Rightarrow> truthy (get_checkpoint_id b) \<and> cid \<ge> the (get_checkpoint_id b))
      then list_checkpoints_loop env t ns config_checkpoint_id before_cfg flt rest limit s
      else if (case flt of
                 None \<Rightarrow> False
               | Some f \<Rightarrow> f \<noteq> [] \<and>
                   \<not> list_all (\<lambda>(query_key, query_value).
                        query_value = md_get (loads_meta env metadata_b) query_key) f)
      then list_checkpoints_loop env t ns config_checkpoint_id before_cfg flt rest limit s
      else if (case limit of None \<Rightarrow> False | Some l \<Rightarrow> l \<le> 0)
      then (limit, s, [])
      else
        (let limit1 = map_option (\<lambda>l. l - 1) limit;
             (w1, ws) = getitem_default (writes s) (t, ns, cid) [];
             s1 = s\<lparr>writes := w1\<rparr>;
             tup = \<lparr>config = \<lparr>thread_id = t, checkpoint_ns = Some ns, checkpoint_id = Some cid\<rparr>,
                    checkpoint = merged_checkpoint env s1 t ns ck,
                    metadata = loads_meta env metadata_b,
                    parent_config = parent_of t ns parent_checkpoint_id,
                    pending_writes = decode_writes env ws\<rparr>;
             (limit2, s2, out) =
               list_checkpoints_loop env t ns config_checkpoint_id before_cfg flt rest limit1 s1
         in (limit2, s2, tup # out)))"

text \<open>The loop over the namespaces of one thread.\<close>

fun list_ns_loop ::
  "('v, 'o, 'mv) env \<Rightarrow> string \<Rightarrow> string option \<Rightarrow> string option \<Rightarrow> config option \<Rightarrow>
   'mv metadata option \<Rightarrow> string list \<Rightarrow> int option \<Rightarrow> saver \<Rightarrow>
   int option \<times> saver \<times> ('v, 'o, 'mv) checkpoint_tuple list" where
  "list_ns_loop env t config_checkpoint_ns config_checkpoint_id before_cfg flt [] limit s =
     (limit, s, [])"
| "list_ns_loop env t config_checkpoint_ns config_checkpoint_id before_cfg flt (ns # rest) limit s =
     (if config_checkpoint_ns \<noteq> None \<and> ns \<noteq> the config_checkpoint_ns
      then list_ns_loop env t config_checkpoint_ns config_checkpoint_id before_cfg flt rest limit s
      else
        (let (st1, cps) = storage_getitem (storage s) t ns;
             (limit1, s1, out1) =
               list_checkpoints_loop env t ns config_checkpoint_id before_cfg flt
                 (sorted_reverse cps) limit (s\<lparr>storage := st1\<rparr>);
             (limit2, s2, out2) =
               list_ns_loop env t config_checkpoint_ns config_checkpoint_id before_cfg flt rest limit1 s1
         in (limit2, s2, out1 @ out2)))"

text \<open>The loop over the threads.\<close>

fun list_thread_loop ::
  "('v, 'o, 'mv) env \<Rightarrow> string option \<Rightarrow> string option \<Rightarrow> config option \<Rightarrow>
   'mv metadata option \<Rightarrow> string list \<Rightarrow> int option \<Rightarrow> saver \<Rightarrow>
   int option \<times> saver \<times> ('v, 'o, 'mv) checkpoint_tuple list" where
  "list_thread_loop env config_checkpoint_ns config_checkpoint_id before_cfg flt [] limit s =
     (limit, s, [])"
| "list_thread_loop env config_checkpoint_ns config_checkpoint_id before_cfg flt (t # rest) limit s =
     (let (st1, nss) = getitem_default (storage s) t [];
          (limit1, s1, out1) =
            list_ns_loop env t config_checkpoint_ns config_checkpoint_id before_cfg flt
              (map fst nss) limit (s\<lparr>storage := st1\<rparr>);
          (limit2, s2, out2) =
            list_thread_loop env config_checkpoint_ns config_checkpoint_id before_cfg flt rest limit1 s1
      in (limit2, s2, out1 @ out2))"

definition list_saver ::
  "('v, 'o, 'mv) env \<Rightarrow> saver \<Rightarrow> config option \<Rightarrow> 'mv metadata option \<Rightarrow> config option \<Rightarrow>
   int option \<Rightarrow> saver \<times> ('v, 'o, 'mv) checkpoint_tuple list" where
  "list_saver env s cfg flt before_cfg limit =
     (let thread_ids = (case cfg of Some c \<Rightarrow> [thread_id c] | None \<Rightarrow> map fst (storage s));
          config_checkpoint_ns = (case cfg of Some c \<Rightarrow> checkpoint_ns c | None \<Rightarrow> None);
          config_checkpoint_id = (case cfg of Some c \<Rightarrow> get_checkpoint_id c | None \<Rightarrow> None);
          (limit1, s1, out) =
            list_thread_loop env config_checkpoint_ns config_checkpoint_id before_cfg flt
              thread_ids limit s
      in (s1, out))"

section \<open>Writing\<close>

text \<open>The loop of \<^verbatim>\<open>put\<close> over \<^verbatim>\<open>new_versions.items()\<close>.\<close>

fun put_blobs ::
  "('v, 'o, 'mv) env \<Rightarrow> string \<Rightarrow> string \<Rightarrow> (string \<times> 'v) list \<Rightarrow> (string \<times> version) list \<Rightarrow>
   blobs_t \<Rightarrow> blobs_t" where
  "put_blobs env t ns vals [] bl = bl"
| "put_blobs env t ns vals ((k, v) # rest) bl =
     put_blobs env t ns vals rest
       (AList.update (t, ns, k, v)
          (case map_of vals k of Some x \<Rightarrow> dumps_val env x | None \<Rightarrow> (''empty'', []))
          bl)"

text \<open>\<^verbatim>\<open>self.storage[thread_id][checkpoint_ns].update({cid: e})\<close>\<close>

definition storage_setitem :: "storage_t \<Rightarrow> string \<Rightarrow> string \<Rightarrow> string \<Rightarrow> entry \<Rightarrow> storage_t" where
  "storage_setitem st t ns cid e =
     (let (st1, nss) = getitem_default st t [];
          (nss1, cps) = getitem_default nss ns []
      in AList.update t (AList.update ns (AList.update cid e cps) nss1) st1)"

text \<open>
  \<^verbatim>\<open>put\<close>. The caller's checkpoint is the object at reference \<open>r\<close> of the heap;
  \<^verbatim>\<open>checkpoint.copy()\<close> allocates a new object \<open>c\<close> with the same fields and
  \<^verbatim>\<open>c.pop("channel_values")\<close> removes the key from the object at \<open>c\<close>. The result is
  the heap as the call leaves it, with the error raised or the saver and the config
  returned. A reference outside the heap has no counterpart in Python and is the result
  \<open>InvalidReference\<close>.
\<close>

definition put ::
  "('v, 'o, 'mv) env \<Rightarrow> saver \<Rightarrow> ('v, 'o) heap \<Rightarrow> config \<Rightarrow> nat \<Rightarrow> 'mv metadata \<Rightarrow>
   (string \<times> version) list \<Rightarrow> ('v, 'o) heap \<times> (error + saver \<times> config)" where
  "put env s h cfg r md new_versions =
     (if r \<ge> length h then (h, Inl InvalidReference)
      else
        let c = length h;
            h1 = h @ [h ! r];
            t = thread_id cfg
        in (case checkpoint_ns cfg of
              None \<Rightarrow> (h1, Inl (KeyError ''checkpoint_ns''))
            | Some ns \<Rightarrow>
                (case channel_values (h1 ! c) of
                   None \<Rightarrow> (h1, Inl (KeyError ''channel_values''))
                 | Some vals \<Rightarrow>
                     let h2 = h1[c := (h1 ! c)\<lparr>channel_values := None\<rparr>];
                         bl = put_blobs env t ns vals new_versions (blobs s);
                         st = storage_setitem (storage s) t ns (ckpt_id (h2 ! r))
                                (dumps_ckpt env (h2 ! c),
                                 dumps_meta env (get_checkpoint_metadata env cfg md),
                                 checkpoint_id cfg)
                     in (h2, Inr (s\<lparr>storage := st, blobs := bl\<rparr>,
                                  \<lparr>thread_id = t, checkpoint_ns = Some ns,
                                   checkpoint_id = Some (ckpt_id (h2 ! r))\<rparr>)))))"

text \<open>
  The loop of \<^verbatim>\<open>put_writes\<close>. \<^verbatim>\<open>outer_writes_\<close> is read once before the loop: when the
  outer key was absent it stays \<^verbatim>\<open>None\<close>; when it was present it is the dictionary
  itself, which the loop updates (\<open>present\<close> says which).
\<close>

fun put_writes_loop ::
  "('v, 'o, 'mv) env \<Rightarrow> string \<times> string \<times> string \<Rightarrow> bool \<Rightarrow> string \<Rightarrow> string \<Rightarrow>
   (nat \<times> string \<times> 'v) list \<Rightarrow> writes_t \<Rightarrow> writes_t" where
  "put_writes_loop env outer_key present task_id task_path [] w = w"
| "put_writes_loop env outer_key present task_id task_path ((idx, (c, v)) # rest) w =
     (let inner_key =
            (task_id, (case map_of (WRITES_IDX_MAP env) c of Some i \<Rightarrow> i | None \<Rightarrow> int idx));
          outer_writes = (if present then map_of w outer_key else None)
      in if snd inner_key \<ge> 0 \<and>
            (case outer_writes of
               None \<Rightarrow> False
             | Some d \<Rightarrow> d \<noteq> [] \<and> inner_key \<in> set (map fst d))
         then put_writes_loop env outer_key present task_id task_path rest w
         else
           (let (w1, d) = getitem_default w outer_key []
            in put_writes_loop env outer_key present task_id task_path rest
                 (AList.update outer_key
                    (AList.update inner_key (task_id, c, dumps_val env v, task_path) d) w1)))"

definition put_writes ::
  "('v, 'o, 'mv) env \<Rightarrow> saver \<Rightarrow> config \<Rightarrow> (string \<times> 'v) list \<Rightarrow> string \<Rightarrow> string \<Rightarrow>
   error + saver" where
  "put_writes env s cfg ws task_id task_path =
     (let t = thread_id cfg;
          ns = (case checkpoint_ns cfg of None \<Rightarrow> [] | Some n \<Rightarrow> n)
      in (case checkpoint_id cfg of
            None \<Rightarrow> Inl (KeyError ''checkpoint_id'')
          | Some cid \<Rightarrow>
              Inr (s\<lparr>writes :=
                     put_writes_loop env (t, ns, cid) (map_of (writes s) (t, ns, cid) \<noteq> None)
                       task_id task_path (enumerate 0 ws) (writes s)\<rparr>)))"

text \<open>
  \<^verbatim>\<open>delete_thread\<close>: the two loops run over a copy of the keys and delete from the
  dictionary.
\<close>

definition delete_keys_of_thread :: "string \<Rightarrow> (('k \<Rightarrow> string) \<Rightarrow> ('k \<times> 'a) list \<Rightarrow> ('k \<times> 'a) list)" where
  "delete_keys_of_thread t first d =
     foldl (\<lambda>d' k. if first k = t then AList.delete k d' else d') d (map fst d)"

definition delete_thread :: "saver \<Rightarrow> string \<Rightarrow> saver" where
  "delete_thread s t =
     (let st = (if t \<in> set (map fst (storage s)) then AList.delete t (storage s) else storage s);
          w = delete_keys_of_thread t fst (writes s);
          bl = delete_keys_of_thread t fst (blobs s)
      in \<lparr>storage = st, writes = w, blobs = bl\<rparr>)"


section \<open>Version generation\<close>















section \<open>The persistent dictionary\<close>

record 'd persistent_dict =
  flag :: string
  mode :: "nat option"
  format :: string
  filename :: string
  contents :: 'd

text \<open>
  The file system: the bytes of each file and the mode set on it (\<open>None\<close>: the mode a
  new file gets).
\<close>

record file_system =
  files :: "string \<rightharpoonup> bytes"
  modes :: "string \<rightharpoonup> nat"

text \<open>
  \<^verbatim>\<open>pickle.dump\<close> is a parameter: it gives the bytes, or an error with the bytes it had
  written before it failed.
\<close>

type_synonym 'd pickler = "'d \<Rightarrow> (error \<times> bytes) + bytes"

definition dump :: "'d pickler \<Rightarrow> 'd persistent_dict \<Rightarrow> (error \<times> bytes) + bytes" where
  "dump pickle_dump pd =
     (if format pd = ''pickle'' then pickle_dump (contents pd)
      else Inl (NotImplementedError, []))"

definition sync ::
  "'d pickler \<Rightarrow> 'd persistent_dict \<Rightarrow> file_system \<Rightarrow> file_system \<times> (error + unit)" where
  "sync pickle_dump pd fs =
     (if flag pd = ''r'' then (fs, Inr ())
      else
        let tempname = filename pd @ ''.tmp'';
            fs1 = fs\<lparr>files := (files fs)(tempname \<mapsto> []), modes := (modes fs)(tempname := None)\<rparr>
        in (case dump pickle_dump pd of
              Inl (e, written) \<Rightarrow>
                (let fs2 = fs1\<lparr>files := (files fs1)(tempname \<mapsto> written)\<rparr>
                 in (fs2\<lparr>files := (files fs2)(tempname := None),
                          modes := (modes fs2)(tempname := None)\<rparr>, Inl e))
            | Inr b \<Rightarrow>
                (let fs2 = fs1\<lparr>files := (files fs1)(tempname \<mapsto> b)\<rparr>;
                     fs3 = fs2\<lparr>files := ((files fs2)(filename pd := files fs2 tempname))
                                          (tempname := None),
                               modes := ((modes fs2)(filename pd := modes fs2 tempname))
                                          (tempname := None)\<rparr>;
                     fs4 = (case mode pd of
                              None \<Rightarrow> fs3
                            | Some m \<Rightarrow> fs3\<lparr>modes := (modes fs3)(filename pd \<mapsto> m)\<rparr>)
                 in (fs4, Inr ()))))"

section \<open>Concrete instances\<close>

text \<open>
  A small serializer, a saver holding two threads and addresses into it, used to run the
  operations on concrete inputs.
\<close>

definition demo_ckpt :: "string \<Rightarrow> (string, unit) checkpoint" where
  "demo_ckpt i =
     \<lparr>ckpt_id = i, channel_values = None,
      channel_versions = (if i = ''c1'' then [(''x'', VStr ''v1'')]
                          else if i = ''c2'' then [(''x'', VStr ''v1''), (''y'', VStr ''v2'')]
                          else [(''x'', VStr ''v9''), (''z'', VStr ''v9'')]),
      other_fields = ()\<rparr>"

definition demo_env :: "(string, unit, string) env" where
  "demo_env =
     \<lparr>dumps_ckpt = (\<lambda>c. (''ckpt'', ckpt_id c)),
      loads_ckpt = (\<lambda>p. demo_ckpt (snd p)),
      dumps_meta = (\<lambda>m. (''meta'', concat (map fst m))),
      loads_meta = (\<lambda>p. if snd p = [] then [] else [(snd p, None)]),
      dumps_val = (\<lambda>v. (''str'', v)),
      loads_val = snd,
      get_checkpoint_metadata = (\<lambda>cfg m. m),
      WRITES_IDX_MAP = [(''__error__'', -1), (''__scheduled__'', -2), (''__interrupt__'', -3),
                        (''__resume__'', -4)]\<rparr>"

definition demo_saver :: saver where
  "demo_saver =
     \<lparr>storage = [(''t1'', [([], [(''c1'', ((''ckpt'', ''c1''), (''meta'', []), None)),
                                 (''c2'', ((''ckpt'', ''c2''), (''meta'', []), Some ''c1''))])]),
                 (''t2'', [([], [(''c1'', ((''ckpt'', ''c1''), (''meta'', []), None))])])],
      writes = [((''t1'', [], ''c2''), [((''task'', 0), (''task'', ''x'', (''str'', ''a''), []))]),
                ((''t2'', [], ''c1''), [((''task'', 0), (''task'', ''y'', (''str'', ''b''), []))])],
      blobs = [((''t1'', [], ''x'', VStr ''v1''), (''str'', ''1'')),
               ((''t1'', [], ''y'', VStr ''v2''), (''str'', ''2'')),
               ((''t2'', [], ''x'', VStr ''v1''), (''str'', ''7''))]\<rparr>"

definition demo_cfg :: "string \<Rightarrow> string option \<Rightarrow> config" where
  "demo_cfg t i = \<lparr>thread_id = t, checkpoint_ns = Some [], checkpoint_id = i\<rparr>"

definition demo_pickler :: "string pickler" where
  "demo_pickler d = (if d = ''bad'' then Inl (SerializationError, ''par'') else Inr (''P'' @ d))"

definition demo_pd :: "string \<Rightarrow> string persistent_dict" where
  "demo_pd d = \<lparr>flag = ''c'', mode = None, format = ''pickle'', filename = ''db'', contents = d\<rparr>"

definition demo_fs :: file_system where
  "demo_fs = \<lparr>files = Map.empty, modes = Map.empty\<rparr>"

text \<open>
  What the tables hold at an address, for stating results: the checkpoints stored under
  a thread and a namespace, and the writes staged under an outer key (empty when the key
  is absent).
\<close>

definition stored_checkpoints :: "saver \<Rightarrow> string \<Rightarrow> string \<Rightarrow> checkpoints" where
  "stored_checkpoints s t ns =
     (case map_of (storage s) t of
        None \<Rightarrow> []
      | Some nss \<Rightarrow> (case map_of nss ns of None \<Rightarrow> [] | Some cps \<Rightarrow> cps))"

definition staged_writes :: "saver \<Rightarrow> string \<times> string \<times> string \<Rightarrow> inner_writes" where
  "staged_writes s k = (case map_of (writes s) k of None \<Rightarrow> [] | Some d \<Rightarrow> d)"

text \<open>The tuple that \<^verbatim>\<open>get_tuple\<close> and \<^verbatim>\<open>list\<close> build for a stored entry.\<close>

definition tuple_of ::
  "('v, 'o, 'mv) env \<Rightarrow> saver \<Rightarrow> config \<Rightarrow> string \<Rightarrow> string \<Rightarrow> string \<Rightarrow> entry \<Rightarrow>
   ('v, 'o, 'mv) checkpoint_tuple" where
  "tuple_of env s cfg t ns cid e =
     \<lparr>config = cfg,
      checkpoint = merged_checkpoint env s t ns (fst e),
      metadata = loads_meta env (fst (snd e)),
      parent_config = parent_of t ns (snd (snd e)),
      pending_writes = decode_writes env (staged_writes s (t, ns, cid))\<rparr>"

text \<open>The blob that \<^verbatim>\<open>put\<close> stores for a channel: its value serialized, or the sentinel.\<close>

definition blob_of :: "('v, 'o, 'mv) env \<Rightarrow> (string \<times> 'v) list \<Rightarrow> string \<Rightarrow> typed" where
  "blob_of env vals k = (case map_of vals k of Some x \<Rightarrow> dumps_val env x | None \<Rightarrow> (''empty'', []))"

definition demo_heap :: "string \<Rightarrow> (string, unit) heap" where
  "demo_heap i =
     [\<lparr>ckpt_id = i, channel_values = Some [(''x'', ''9'')],
       channel_versions = [(''x'', VStr ''v9''), (''z'', VStr ''v9'')], other_fields = ()\<rparr>]"

definition demo_new_versions :: "(string \<times> version) list" where
  "demo_new_versions = [(''x'', VStr ''v9''), (''z'', VStr ''v9'')]"

text \<open>The inner key that \<^verbatim>\<open>put_writes\<close> gives the write at position \<open>idx\<close> to channel \<open>c\<close>.\<close>

definition inner_key_of :: "('v, 'o, 'mv) env \<Rightarrow> string \<Rightarrow> nat \<Rightarrow> string \<Rightarrow> string \<times> int" where
  "inner_key_of env task_id idx c =
     (task_id, (case map_of (WRITES_IDX_MAP env) c of Some i \<Rightarrow> i | None \<Rightarrow> int idx))"

text \<open>The write staged under an outer key and an inner key of the table of writes.\<close>

definition staged_lookup ::
  "writes_t \<Rightarrow> string \<times> string \<times> string \<Rightarrow> string \<times> int \<Rightarrow>
   (string \<times> string \<times> typed \<times> string) option" where
  "staged_lookup w outer_key inner_key =
     (case map_of w outer_key of None \<Rightarrow> None | Some d \<Rightarrow> map_of d inner_key)"

text \<open>
  Reading \<^verbatim>\<open>self.writes[k]\<close> inserts an empty dictionary under a key that is absent; the
  saver after such a read.
\<close>

definition touch_writes :: "saver \<Rightarrow> string \<times> string \<times> string \<Rightarrow> saver" where
  "touch_writes s k = s\<lparr>writes := fst (getitem_default (writes s) k [])\<rparr>"

text \<open>
  Two savers that \<^verbatim>\<open>get_tuple\<close> and \<^verbatim>\<open>list\<close> cannot tell apart: the same checkpoints and
  blobs, and the same writes staged under every key.
\<close>

definition same_view :: "saver \<Rightarrow> saver \<Rightarrow> bool" where
  "same_view s s' =
     (storage s = storage s' \<and> blobs s = blobs s' \<and> (\<forall>k. staged_writes s k = staged_writes s' k))"

text \<open>The keys of every dictionary of the checkpoint table are distinct.\<close>

definition saver_ok :: "saver \<Rightarrow> bool" where
  "saver_ok s =
     (distinct (map fst (storage s)) \<and>
      (\<forall>(t, nss) \<in> set (storage s).
         distinct (map fst nss) \<and> (\<forall>(n, cps) \<in> set nss. distinct (map fst cps))))"

text \<open>What an unfiltered \<^verbatim>\<open>list\<close> yields for one namespace of one thread.\<close>

definition ns_tuples ::
  "('v, 'o, 'mv) env \<Rightarrow> saver \<Rightarrow> string \<Rightarrow> string \<Rightarrow> ('v, 'o, 'mv) checkpoint_tuple list" where
  "ns_tuples env s t ns =
     map (\<lambda>(cid, e). tuple_of env s
            \<lparr>thread_id = t, checkpoint_ns = Some ns, checkpoint_id = Some cid\<rparr> t ns cid e)
       (sorted_reverse (stored_checkpoints s t ns))"

text \<open>The namespaces of a thread, in the order of the dictionary.\<close>

definition ns_keys :: "saver \<Rightarrow> string \<Rightarrow> string list" where
  "ns_keys s t = (case map_of (storage s) t of None \<Rightarrow> [] | Some nss \<Rightarrow> map fst nss)"

text \<open>What an unfiltered \<^verbatim>\<open>list\<close> yields for one thread.\<close>

definition thread_tuples ::
  "('v, 'o, 'mv) env \<Rightarrow> saver \<Rightarrow> string option \<Rightarrow> string \<Rightarrow> ('v, 'o, 'mv) checkpoint_tuple list" where
  "thread_tuples env s cns t =
     concat (map (ns_tuples env s t) (filter (\<lambda>ns. cns = None \<or> cns = Some ns) (ns_keys s t)))"

section \<open>Facts about the helpers\<close>


lemma truthy_Some: "truthy (Some x) = (x \<noteq> [])"
  by (simp add: truthy_def)

lemma delete_keys_fold:
  "foldl (\<lambda>d' k. if f k = t then AList.delete k d' else d') d ks
     = filter (\<lambda>p. \<not> (f (fst p) = t \<and> fst p \<in> set ks)) d"
proof (induction ks arbitrary: d)
  case Nil
  then show ?case by simp
next
  case (Cons k ks)
  show ?case
    by (auto simp add: Cons.IH AList.delete_eq case_prod_unfold intro!: filter_cong)
qed

lemma delete_keys_of_thread_filter:
  "delete_keys_of_thread t f d = filter (\<lambda>p. f (fst p) \<noteq> t) d"
  unfolding delete_keys_of_thread_def delete_keys_fold
  by (rule filter_cong) auto

lemma storage_delete_thread:
  "storage (delete_thread s t) = filter (\<lambda>p. fst p \<noteq> t) (storage s)"
proof (cases "t \<in> set (map fst (storage s))")
  case True
  then show ?thesis
    by (auto simp add: delete_thread_def Let_def AList.delete_eq case_prod_unfold intro!: filter_cong)
next
  case False
  then have "filter (\<lambda>p. fst p \<noteq> t) (storage s) = storage s"
    by (intro filter_True) auto
  with False show ?thesis
    by (simp add: delete_thread_def Let_def)
qed

lemma writes_delete_thread:
  "writes (delete_thread s t) = filter (\<lambda>p. fst (fst p) \<noteq> t) (writes s)"
  by (simp add: delete_thread_def Let_def delete_keys_of_thread_filter)

lemma blobs_delete_thread:
  "blobs (delete_thread s t) = filter (\<lambda>p. fst (fst p) \<noteq> t) (blobs s)"
  by (simp add: delete_thread_def Let_def delete_keys_of_thread_filter)

lemma map_of_filter_key:
  "P k \<Longrightarrow> map_of (filter (\<lambda>p. P (fst p)) xs) k = map_of xs k"
  by (induction xs) auto

lemma map_of_filter_key_None:
  "\<not> P k \<Longrightarrow> map_of (filter (\<lambda>p. P (fst p)) xs) k = None"
  by (induction xs) auto

lemma storage_getitem_absent:
  "map_of st t = None \<Longrightarrow> snd (storage_getitem st t ns) = []"
  by (simp add: storage_getitem_def getitem_default_def)

lemma get_tuple_absent_thread:
  "map_of (storage s) (thread_id cfg) = None \<Longrightarrow> snd (get_tuple env s cfg) = None"
  by (simp add: get_tuple_def storage_getitem_def getitem_default_def Let_def)

lemma list_saver_absent_thread:
  "map_of (storage s) (thread_id cfg) = None \<Longrightarrow>
     snd (list_saver env s (Some cfg) flt before_cfg limit) = []"
  by (simp add: list_saver_def getitem_default_def Let_def)

lemma list_checkpoints_loop_thread:
  "list_checkpoints_loop env t ns cid before_cfg flt items limit s = (limit', s', out) \<Longrightarrow>
     tup \<in> set out \<Longrightarrow> thread_id (config tup) = t"
proof (induction items arbitrary: limit s limit' s' out)
  case Nil
  then show ?case by simp
next
  case (Cons a items)
  obtain i ck mb par where a: "a = (i, (ck, mb, par))" by (metis prod_cases3 surj_pair)
  show ?case using Cons.prems Cons.IH unfolding a
    by (auto simp add: Let_def split: if_splits prod.splits)
qed

lemma list_ns_loop_thread:
  "list_ns_loop env t cns cid before_cfg flt nss limit s = (limit', s', out) \<Longrightarrow>
     tup \<in> set out \<Longrightarrow> thread_id (config tup) = t"
proof (induction nss arbitrary: limit s limit' s' out)
  case Nil
  then show ?case by simp
next
  case (Cons ns nss)
  show ?case using Cons.prems Cons.IH
    by (auto simp add: Let_def split: if_splits prod.splits dest: list_checkpoints_loop_thread)
qed

lemma list_thread_loop_thread:
  "list_thread_loop env cns cid before_cfg flt ts limit s = (limit', s', out) \<Longrightarrow>
     tup \<in> set out \<Longrightarrow> thread_id (config tup) \<in> set ts"
proof (induction ts arbitrary: limit s limit' s' out)
  case Nil
  then show ?case by simp
next
  case (Cons t ts)
  obtain st1 nss where g: "getitem_default (storage s) t [] = (st1, nss)"
    by (cases "getitem_default (storage s) t []")
  obtain l1 s1 out1 where n: "list_ns_loop env t cns cid before_cfg flt (map fst nss) limit
      (s\<lparr>storage := st1\<rparr>) = (l1, s1, out1)"
    by (metis prod_cases3)
  obtain l2 s2 out2 where r: "list_thread_loop env cns cid before_cfg flt ts l1 s1 = (l2, s2, out2)"
    by (metis prod_cases3)
  from Cons.prems(1) g n r have out: "out = out1 @ out2" by simp
  with Cons.prems(2) consider "tup \<in> set out1" | "tup \<in> set out2" by auto
  then show ?case
  proof cases
    case 1
    with n show ?thesis by (simp add: list_ns_loop_thread)
  next
    case 2
    with r Cons.IH show ?thesis by simp
  qed
qed

lemma list_saver_all_threads:
  "tup \<in> set (snd (list_saver env s None flt before_cfg limit)) \<Longrightarrow>
     thread_id (config tup) \<in> fst ` set (storage s)"
  by (auto simp add: list_saver_def Let_def split: prod.splits dest: list_thread_loop_thread)

lemma load_blobs_loop_cong:
  "(\<And>k v. map_of bl (t, ns, k, v) = map_of bl' (t, ns, k, v)) \<Longrightarrow>
     load_blobs_loop env bl t ns vs acc = load_blobs_loop env bl' t ns vs acc"
  by (induction vs arbitrary: acc) (auto split: option.splits)

lemma snd_getitem_default:
  "snd (getitem_default d k dflt) = (case map_of d k of None \<Rightarrow> dflt | Some v \<Rightarrow> v)"
  by (simp add: getitem_default_def split: option.splits)

lemma snd_storage_getitem:
  "snd (storage_getitem st t ns) =
     (case map_of st t of None \<Rightarrow> []
      | Some nss \<Rightarrow> (case map_of nss ns of None \<Rightarrow> [] | Some cps \<Rightarrow> cps))"
  by (simp add: storage_getitem_def getitem_default_def split: option.splits)

lemma get_tuple_result:
  "snd (get_tuple env s cfg) =
     (let t = thread_id cfg;
          ns = (case checkpoint_ns cfg of None \<Rightarrow> [] | Some n \<Rightarrow> n);
          checkpoints = snd (storage_getitem (storage s) t ns);
          sel = (if truthy (get_checkpoint_id cfg) then get_checkpoint_id cfg
                 else py_max (map fst checkpoints))
      in case sel of None \<Rightarrow> None
         | Some cid \<Rightarrow>
             (case map_of checkpoints cid of None \<Rightarrow> None
              | Some (ck, md, parent_checkpoint_id) \<Rightarrow>
                  Some \<lparr>config = (if truthy (get_checkpoint_id cfg) then cfg
                          else \<lparr>thread_id = t, checkpoint_ns = Some ns, checkpoint_id = Some cid\<rparr>),
                    checkpoint = merged_checkpoint env s t ns ck,
                    metadata = loads_meta env md,
                    parent_config = parent_of t ns parent_checkpoint_id,
                    pending_writes = decode_writes env
                      (case map_of (writes s) (t, ns, cid) of None \<Rightarrow> [] | Some d \<Rightarrow> d)\<rparr>))"
  by (auto simp add: get_tuple_def Let_def truthy_def merged_checkpoint_def load_blobs_def
      getitem_default_def split: prod.splits option.splits)

lemma get_tuple_frame:
  assumes st: "map_of (storage s') (thread_id cfg) = map_of (storage s) (thread_id cfg)"
    and w: "\<And>ns cid. map_of (writes s') (thread_id cfg, ns, cid) = map_of (writes s) (thread_id cfg, ns, cid)"
    and b: "\<And>ns k v. map_of (blobs s') (thread_id cfg, ns, k, v) = map_of (blobs s) (thread_id cfg, ns, k, v)"
  shows "snd (get_tuple env s' cfg) = snd (get_tuple env s cfg)"
proof -
  have m: "merged_checkpoint env s' (thread_id cfg) ns ck = merged_checkpoint env s (thread_id cfg) ns ck"
    for ns ck
  proof -
    have "load_blobs_loop env (blobs s') (thread_id cfg) ns vs [] =
        load_blobs_loop env (blobs s) (thread_id cfg) ns vs []" for vs
      by (rule load_blobs_loop_cong) (rule b)
    then show ?thesis
      by (simp add: merged_checkpoint_def load_blobs_def Let_def)
  qed
  show ?thesis
    unfolding get_tuple_result snd_storage_getitem Let_def st w m ..
qed

section \<open>Deleting a thread\<close>

text \<open>
  Claim C2. After \<^verbatim>\<open>delete_thread(T)\<close> no key of the three tables starts with \<open>T\<close>;
  \<^verbatim>\<open>get_tuple\<close> finds nothing at an address of \<open>T\<close> and \<^verbatim>\<open>list\<close> yields nothing of
  \<open>T\<close>, whether it is asked for \<open>T\<close> or for every thread. Each table is the old table
  without the entries of \<open>T\<close>, in the old order, so every entry of another thread is
  unchanged and \<^verbatim>\<open>get_tuple\<close> at an address of another thread returns what it returned
  before. When no key of any table starts with \<open>T\<close> the saver is unchanged.
\<close>

theorem delete_thread_complete_and_frame:
  "(let s' = delete_thread s t in
      t \<notin> fst ` set (storage s') \<and> t \<notin> (fst \<circ> fst) ` set (writes s') \<and>
      t \<notin> (fst \<circ> fst) ` set (blobs s') \<and>
      (\<forall>cfg. thread_id cfg = t \<longrightarrow>
         snd (get_tuple env s' cfg) = None \<and>
         (\<forall>flt before_cfg limit. snd (list_saver env s' (Some cfg) flt before_cfg limit) = [])) \<and>
      (\<forall>flt before_cfg limit tup.
         tup \<in> set (snd (list_saver env s' None flt before_cfg limit)) \<longrightarrow>
           thread_id (config tup) \<noteq> t) \<and>
      storage s' = filter (\<lambda>p. fst p \<noteq> t) (storage s) \<and>
      writes s' = filter (\<lambda>p. fst (fst p) \<noteq> t) (writes s) \<and>
      blobs s' = filter (\<lambda>p. fst (fst p) \<noteq> t) (blobs s) \<and>
      (\<forall>t'. t' \<noteq> t \<longrightarrow> map_of (storage s') t' = map_of (storage s) t') \<and>
      (\<forall>k. fst k \<noteq> t \<longrightarrow> map_of (writes s') k = map_of (writes s) k) \<and>
      (\<forall>k. fst k \<noteq> t \<longrightarrow> map_of (blobs s') k = map_of (blobs s) k) \<and>
      (\<forall>cfg. thread_id cfg \<noteq> t \<longrightarrow> snd (get_tuple env s' cfg) = snd (get_tuple env s cfg)) \<and>
      (t \<notin> fst ` set (storage s) \<and> t \<notin> (fst \<circ> fst) ` set (writes s) \<and>
       t \<notin> (fst \<circ> fst) ` set (blobs s) \<longrightarrow> s' = s))"
proof -
  define s' where "s' = delete_thread s t"
  have st: "storage s' = filter (\<lambda>p. fst p \<noteq> t) (storage s)"
    and w: "writes s' = filter (\<lambda>p. fst (fst p) \<noteq> t) (writes s)"
    and b: "blobs s' = filter (\<lambda>p. fst (fst p) \<noteq> t) (blobs s)"
    unfolding s'_def by (rule storage_delete_thread writes_delete_thread blobs_delete_thread)+
  have gone: "t \<notin> fst ` set (storage s')" "t \<notin> (fst \<circ> fst) ` set (writes s')"
    "t \<notin> (fst \<circ> fst) ` set (blobs s')"
    unfolding st w b by auto
  have none: "map_of (storage s') t = None"
    using gone(1) by (simp add: map_of_eq_None_iff)
  have obs: "snd (get_tuple env s' cfg) = None \<and>
      (\<forall>flt before_cfg limit. snd (list_saver env s' (Some cfg) flt before_cfg limit) = [])"
    if "thread_id cfg = t" for cfg
    using that none by (simp add: get_tuple_absent_thread list_saver_absent_thread)
  have obs_all: "thread_id (config tup) \<noteq> t"
    if "tup \<in> set (snd (list_saver env s' None flt before_cfg limit))" for flt before_cfg limit tup
    using list_saver_all_threads [OF that] gone(1) by auto
  have fst_frame: "map_of (storage s') t' = map_of (storage s) t'" if "t' \<noteq> t" for t'
    unfolding st using that by (rule map_of_filter_key [where P = "\<lambda>k. k \<noteq> t"])
  have w_frame: "map_of (writes s') k = map_of (writes s) k" if "fst k \<noteq> t" for k
    unfolding w using that by (rule map_of_filter_key [where P = "\<lambda>k. fst k \<noteq> t"])
  have b_frame: "map_of (blobs s') k = map_of (blobs s) k" if "fst k \<noteq> t" for k
    unfolding b using that by (rule map_of_filter_key [where P = "\<lambda>k. fst k \<noteq> t"])
  have get_frame: "snd (get_tuple env s' cfg) = snd (get_tuple env s cfg)"
    if "thread_id cfg \<noteq> t" for cfg
    using that by (intro get_tuple_frame fst_frame w_frame b_frame) simp_all
  have noop: "s' = s"
    if "t \<notin> fst ` set (storage s) \<and> t \<notin> (fst \<circ> fst) ` set (writes s) \<and>
       t \<notin> (fst \<circ> fst) ` set (blobs s)"
  proof -
    have "filter (\<lambda>p. fst p \<noteq> t) (storage s) = storage s"
      "filter (\<lambda>p. fst (fst p) \<noteq> t) (writes s) = writes s"
      "filter (\<lambda>p. fst (fst p) \<noteq> t) (blobs s) = blobs s"
      using that by (auto intro!: filter_True)
    then show ?thesis using st w b by simp
  qed
  show ?thesis
    unfolding Let_def s'_def [symmetric]
  proof (intro conjI allI impI)
    show "t \<notin> fst ` set (storage s')" by (rule gone)
    show "t \<notin> (fst \<circ> fst) ` set (writes s')" by (rule gone)
    show "t \<notin> (fst \<circ> fst) ` set (blobs s')" by (rule gone)
    show "snd (get_tuple env s' cfg) = None" if "thread_id cfg = t" for cfg
      using obs [OF that] by simp
    show "snd (list_saver env s' (Some cfg) flt before_cfg limit) = []"
      if "thread_id cfg = t" for cfg flt before_cfg limit
      using obs [OF that] by simp
    show "thread_id (config tup) \<noteq> t"
      if "tup \<in> set (snd (list_saver env s' None flt before_cfg limit))" for flt before_cfg limit tup
      using that by (rule obs_all)
    show "storage s' = filter (\<lambda>p. fst p \<noteq> t) (storage s)" by (rule st)
    show "writes s' = filter (\<lambda>p. fst (fst p) \<noteq> t) (writes s)" by (rule w)
    show "blobs s' = filter (\<lambda>p. fst (fst p) \<noteq> t) (blobs s)" by (rule b)
    show "map_of (storage s') t' = map_of (storage s) t'" if "t' \<noteq> t" for t'
      using that by (rule fst_frame)
    show "map_of (writes s') k = map_of (writes s) k" if "fst k \<noteq> t" for k
      using that by (rule w_frame)
    show "map_of (blobs s') k = map_of (blobs s) k" if "fst k \<noteq> t" for k
      using that by (rule b_frame)
    show "snd (get_tuple env s' cfg) = snd (get_tuple env s cfg)" if "thread_id cfg \<noteq> t" for cfg
      using that by (rule get_frame)
    show "s' = s"
      if "t \<notin> fst ` set (storage s) \<and> t \<notin> (fst \<circ> fst) ` set (writes s) \<and>
       t \<notin> (fst \<circ> fst) ` set (blobs s)"
      using that by (rule noop)
  qed
qed

text \<open>The saver with two threads, the thread \<open>t1\<close> deleted; and an unknown thread.\<close>

theorem delete_thread_witness:
  "delete_thread demo_saver ''t1'' =
     \<lparr>storage = [(''t2'', [([], [(''c1'', ((''ckpt'', ''c1''), (''meta'', []), None))])])],
      writes = [((''t2'', [], ''c1''), [((''task'', 0), (''task'', ''y'', (''str'', ''b''), []))])],
      blobs = [((''t2'', [], ''x'', VStr ''v1''), (''str'', ''7''))]\<rparr> \<and>
   snd (get_tuple demo_env demo_saver (demo_cfg ''t1'' None)) \<noteq> None \<and>
   snd (get_tuple demo_env (delete_thread demo_saver ''t1'') (demo_cfg ''t1'' None)) = None \<and>
   snd (list_saver demo_env (delete_thread demo_saver ''t1'') (Some (demo_cfg ''t1'' None))
          None None None) = [] \<and>
   map (thread_id \<circ> config)
     (snd (list_saver demo_env (delete_thread demo_saver ''t1'') None None None None)) = [''t2''] \<and>
   snd (get_tuple demo_env demo_saver (demo_cfg ''t2'' None)) \<noteq> None \<and>
   snd (get_tuple demo_env (delete_thread demo_saver ''t1'') (demo_cfg ''t2'' None)) =
     snd (get_tuple demo_env demo_saver (demo_cfg ''t2'' None)) \<and>
   map_of (blobs (delete_thread demo_saver ''t1'')) (''t2'', [], ''x'', VStr ''v1'') =
     Some (''str'', ''7'') \<and>
   delete_thread demo_saver ''t3'' = demo_saver"
proof -
  note at_t1 = delete_thread_complete_and_frame
    [where s = demo_saver and t = "''t1''" and env = demo_env, unfolded Let_def]
  note at_t3 = delete_thread_complete_and_frame
    [where s = demo_saver and t = "''t3''" and env = demo_env, unfolded Let_def]
  have shape: "delete_thread demo_saver ''t1'' =
     \<lparr>storage = [(''t2'', [([], [(''c1'', ((''ckpt'', ''c1''), (''meta'', []), None))])])],
      writes = [((''t2'', [], ''c1''), [((''task'', 0), (''task'', ''y'', (''str'', ''b''), []))])],
      blobs = [((''t2'', [], ''x'', VStr ''v1''), (''str'', ''7''))]\<rparr>"
    by code_simp
  have before1: "snd (get_tuple demo_env demo_saver (demo_cfg ''t1'' None)) \<noteq> None"
    by code_simp
  have before2: "snd (get_tuple demo_env demo_saver (demo_cfg ''t2'' None)) \<noteq> None"
    by code_simp
  have t1: "thread_id (demo_cfg ''t1'' None) = ''t1''" and t2: "thread_id (demo_cfg ''t2'' None) \<noteq> ''t1''"
    by (simp_all add: demo_cfg_def)
  have gone: "snd (get_tuple demo_env (delete_thread demo_saver ''t1'') (demo_cfg ''t1'' None)) = None"
    "snd (list_saver demo_env (delete_thread demo_saver ''t1'') (Some (demo_cfg ''t1'' None))
          None None None) = []"
    using at_t1 t1 by simp_all
  have kept: "snd (get_tuple demo_env (delete_thread demo_saver ''t1'') (demo_cfg ''t2'' None)) =
     snd (get_tuple demo_env demo_saver (demo_cfg ''t2'' None))"
    using at_t1 t2 by simp
  have blob: "map_of (blobs (delete_thread demo_saver ''t1'')) (''t2'', [], ''x'', VStr ''v1'') =
     Some (''str'', ''7'')"
    unfolding shape by simp
  have listing: "map (thread_id \<circ> config)
     (snd (list_saver demo_env (delete_thread demo_saver ''t1'') None None None None)) = [''t2'']"
    unfolding shape by code_simp
  have unknown: "''t3'' \<notin> fst ` set (storage demo_saver) \<and>
      ''t3'' \<notin> (fst \<circ> fst) ` set (writes demo_saver) \<and>
      ''t3'' \<notin> (fst \<circ> fst) ` set (blobs demo_saver)"
    by (simp add: demo_saver_def)
  have noop: "delete_thread demo_saver ''t3'' = demo_saver"
    using at_t3 unknown by simp
  show ?thesis
    using shape before1 gone listing before2 kept blob noop by (intro conjI)
qed

section \<open>The persistent dictionary: a failing sync\<close>

lemma sync_success:
  "flag pd \<noteq> ''r'' \<Longrightarrow> dump pickle_dump pd = Inr b \<Longrightarrow>
     snd (sync pickle_dump pd fs) = Inr () \<and>
     files (fst (sync pickle_dump pd fs)) (filename pd) = Some b \<and>
     files (fst (sync pickle_dump pd fs)) (filename pd @ ''.tmp'') = None \<and>
     modes (fst (sync pickle_dump pd fs)) (filename pd @ ''.tmp'') = None"
  by (simp add: sync_def Let_def split: option.splits)

lemma sync_failure:
  "flag pd \<noteq> ''r'' \<Longrightarrow> dump pickle_dump pd = Inl (e, written) \<Longrightarrow>
     sync pickle_dump pd fs =
       (fs\<lparr>files := (files fs)(filename pd @ ''.tmp'' := None),
           modes := (modes fs)(filename pd @ ''.tmp'' := None)\<rparr>, Inl e)"
  by (simp add: sync_def Let_def)

text \<open>
  Claim C9. When \<^verbatim>\<open>dump\<close> fails during \<^verbatim>\<open>sync\<close> (the flag is not \<open>r\<close>, so that
  serialization is attempted), the error is the result, the temporary file does not
  exist afterwards and every other file, the destination among them, has the bytes and
  the mode it had. After a successful \<^verbatim>\<open>sync\<close> to the same file name that wrote the
  bytes \<open>b\<close>, a failing \<^verbatim>\<open>sync\<close> leaves the whole file system as the successful one
  left it, the destination holding \<open>b\<close>.
\<close>

theorem sync_failure_atomic:
  assumes "flag pd \<noteq> ''r''" and "dump pickle_dump pd = Inl (e, written)"
  shows "snd (sync pickle_dump pd fs) = Inl e \<and>
     files (fst (sync pickle_dump pd fs)) (filename pd @ ''.tmp'') = None \<and>
     files (fst (sync pickle_dump pd fs)) (filename pd) = files fs (filename pd) \<and>
     (\<forall>path. path \<noteq> filename pd @ ''.tmp'' \<longrightarrow>
        files (fst (sync pickle_dump pd fs)) path = files fs path \<and>
        modes (fst (sync pickle_dump pd fs)) path = modes fs path) \<and>
     (flag pd0 \<noteq> ''r'' \<and> filename pd0 = filename pd \<and> dump pickle_dump pd0 = Inr b \<longrightarrow>
        snd (sync pickle_dump pd0 fs0) = Inr () \<and>
        files (fst (sync pickle_dump pd0 fs0)) (filename pd) = Some b \<and>
        snd (sync pickle_dump pd (fst (sync pickle_dump pd0 fs0))) = Inl e \<and>
        fst (sync pickle_dump pd (fst (sync pickle_dump pd0 fs0))) = fst (sync pickle_dump pd0 fs0))"
proof -
  note f = sync_failure [OF assms]
  have two: "snd (sync pickle_dump pd0 fs0) = Inr () \<and>
        files (fst (sync pickle_dump pd0 fs0)) (filename pd) = Some b \<and>
        snd (sync pickle_dump pd (fst (sync pickle_dump pd0 fs0))) = Inl e \<and>
        fst (sync pickle_dump pd (fst (sync pickle_dump pd0 fs0))) = fst (sync pickle_dump pd0 fs0)"
    if "flag pd0 \<noteq> ''r'' \<and> filename pd0 = filename pd \<and> dump pickle_dump pd0 = Inr b"
  proof -
    from that sync_success [of pd0 pickle_dump b fs0]
    have ok: "snd (sync pickle_dump pd0 fs0) = Inr ()"
      "files (fst (sync pickle_dump pd0 fs0)) (filename pd) = Some b"
      "files (fst (sync pickle_dump pd0 fs0)) (filename pd @ ''.tmp'') = None"
      "modes (fst (sync pickle_dump pd0 fs0)) (filename pd @ ''.tmp'') = None"
      by simp_all
    then show ?thesis
      by (simp add: f fun_upd_idem)
  qed
  show ?thesis
    using two by (simp add: f)
qed

text \<open>A dictionary that pickles, synced, then one that does not.\<close>

theorem sync_failure_witness:
  "flag (demo_pd ''bad'') \<noteq> ''r'' \<and>
   dump demo_pickler (demo_pd ''bad'') = Inl (SerializationError, ''par'') \<and>
   dump demo_pickler (demo_pd ''good'') = Inr ''Pgood'' \<and>
   snd (sync demo_pickler (demo_pd ''good'') demo_fs) = Inr () \<and>
   files (fst (sync demo_pickler (demo_pd ''good'') demo_fs)) ''db'' = Some ''Pgood'' \<and>
   snd (sync demo_pickler (demo_pd ''bad'') (fst (sync demo_pickler (demo_pd ''good'') demo_fs)))
     = Inl SerializationError \<and>
   files (fst (sync demo_pickler (demo_pd ''bad'') (fst (sync demo_pickler (demo_pd ''good'') demo_fs))))
     ''db.tmp'' = None \<and>
   files (fst (sync demo_pickler (demo_pd ''bad'') (fst (sync demo_pickler (demo_pd ''good'') demo_fs))))
     ''db'' = Some ''Pgood''"
proof -
  have fl: "flag (demo_pd ''bad'') \<noteq> ''r''" "flag (demo_pd ''good'') \<noteq> ''r''"
    by (simp_all add: demo_pd_def)
  have bad: "dump demo_pickler (demo_pd ''bad'') = Inl (SerializationError, ''par'')"
    by (simp add: dump_def demo_pd_def demo_pickler_def)
  have good: "dump demo_pickler (demo_pd ''good'') = Inr ''Pgood''"
    by (simp add: dump_def demo_pd_def demo_pickler_def)
  have nm: "filename (demo_pd ''bad'') = ''db''" "filename (demo_pd ''good'') = ''db''"
    by (simp_all add: demo_pd_def)
  note at = sync_failure_atomic [OF fl(1) bad,
      where fs = "fst (sync demo_pickler (demo_pd ''good'') demo_fs)"
        and ?pd0.0 = "demo_pd ''good''" and ?fs0.0 = demo_fs and b = "''Pgood''"]
  from at fl good bad nm sync_success [OF fl(2) good, of demo_fs] show ?thesis
    by simp
qed

section \<open>Resolving an address\<close>

lemma py_max_Max: "py_max (x # xs) = Some (Max (set (x # xs)))"
proof -
  have "(\<lambda>m y. if m < y then y else m) = (\<lambda>m y :: 'a. max y m)"
    by (auto simp add: fun_eq_iff max_def)
  then have "foldl (\<lambda>m y. if m < y then y else m) x xs = fold max xs x"
    by (simp add: foldl_conv_fold)
  moreover have "Max (set (x # xs)) = fold max xs x"
    by (rule Max.set_eq_fold)
  ultimately show ?thesis
    by (simp only: py_max.simps)
qed

lemma py_max_cases:
  "py_max ks = (if ks = [] then None else Some (Max (set ks)))"
proof (cases ks)
  case Nil
  then show ?thesis by simp
next
  case (Cons k ks')
  then show ?thesis by (simp only: py_max_Max) simp
qed

lemma get_tuple_stored:
  "snd (get_tuple env s cfg) =
     (let t = thread_id cfg;
          ns = (case checkpoint_ns cfg of None \<Rightarrow> [] | Some n \<Rightarrow> n);
          cps = stored_checkpoints s t ns;
          sel = (if truthy (get_checkpoint_id cfg) then get_checkpoint_id cfg
                 else py_max (map fst cps))
      in case sel of None \<Rightarrow> None
         | Some cid \<Rightarrow>
             (case map_of cps cid of None \<Rightarrow> None
              | Some e \<Rightarrow>
                  Some (tuple_of env s
                    (if truthy (get_checkpoint_id cfg) then cfg
                     else \<lparr>thread_id = t, checkpoint_ns = Some ns, checkpoint_id = Some cid\<rparr>)
                    t ns cid e)))"
  unfolding get_tuple_result snd_storage_getitem stored_checkpoints_def tuple_of_def
    staged_writes_def Let_def
  by (auto split: option.splits)

text \<open>
  Claim C4, amended. \<^verbatim>\<open>get_tuple\<close> has no error result. With a checkpoint id in the
  config that is not the empty string, the result is the tuple of the checkpoint stored
  under exactly that id in the thread and namespace of the config, and \<open>None\<close> when no
  checkpoint is stored under it. With no checkpoint id, or with the empty string as the
  id (Python tests the id for truth), the result is \<open>None\<close> when the namespace holds no
  checkpoint and otherwise the tuple of the checkpoint whose id is the greatest in the
  namespace.
\<close>

theorem get_tuple_resolution:
  "(let t = thread_id cfg;
        ns = (case checkpoint_ns cfg of None \<Rightarrow> [] | Some n \<Rightarrow> n);
        cps = stored_checkpoints s t ns
    in (\<forall>cid. get_checkpoint_id cfg = Some cid \<and> cid \<noteq> [] \<longrightarrow>
          snd (get_tuple env s cfg) =
            (case map_of cps cid of
               None \<Rightarrow> None
             | Some e \<Rightarrow> Some (tuple_of env s cfg t ns cid e))) \<and>
       (get_checkpoint_id cfg = None \<or> get_checkpoint_id cfg = Some [] \<longrightarrow>
          (cps = [] \<longrightarrow> snd (get_tuple env s cfg) = None) \<and>
          (cps \<noteq> [] \<longrightarrow>
             (\<exists>e. map_of cps (Max (set (map fst cps))) = Some e \<and>
                  snd (get_tuple env s cfg) =
                    Some (tuple_of env s
                      \<lparr>thread_id = t, checkpoint_ns = Some ns,
                       checkpoint_id = Some (Max (set (map fst cps)))\<rparr>
                      t ns (Max (set (map fst cps))) e)))))"
proof -
  define t where "t = thread_id cfg"
  define ns where "ns = (case checkpoint_ns cfg of None \<Rightarrow> [] | Some n \<Rightarrow> n)"
  define cps where "cps = stored_checkpoints s t ns"
  note r = get_tuple_stored [of env s cfg, unfolded Let_def, folded t_def ns_def, folded cps_def]
  have explicit: "snd (get_tuple env s cfg) =
      (case map_of cps cid of None \<Rightarrow> None | Some e \<Rightarrow> Some (tuple_of env s cfg t ns cid e))"
    if "get_checkpoint_id cfg = Some cid \<and> cid \<noteq> []" for cid
    using that by (simp add: r truthy_def)
  have latest_none: "snd (get_tuple env s cfg) = None"
    if "get_checkpoint_id cfg = None \<or> get_checkpoint_id cfg = Some []" "cps = []"
    using that by (auto simp add: r truthy_def)
  have latest_some: "\<exists>e. map_of cps (Max (set (map fst cps))) = Some e \<and>
      snd (get_tuple env s cfg) =
        Some (tuple_of env s
          \<lparr>thread_id = t, checkpoint_ns = Some ns, checkpoint_id = Some (Max (set (map fst cps)))\<rparr>
          t ns (Max (set (map fst cps))) e)"
    if a: "get_checkpoint_id cfg = None \<or> get_checkpoint_id cfg = Some []" and ne: "cps \<noteq> []"
  proof -
    from ne have "Max (set (map fst cps)) \<in> set (map fst cps)"
      by (intro Max_in) simp_all
    then obtain e where e: "map_of cps (Max (set (map fst cps))) = Some e"
      by (metis map_of_eq_None_iff not_Some_eq set_map)
    from a have nt: "\<not> truthy (get_checkpoint_id cfg)"
      by (auto simp add: truthy_def)
    from ne have m: "py_max (map fst cps) = Some (Max (set (map fst cps)))"
      by (simp add: py_max_cases)
    show ?thesis
      using e by (simp add: r nt m)
  qed
  show ?thesis
    unfolding Let_def t_def [symmetric] ns_def [symmetric] cps_def [symmetric]
    using explicit latest_none latest_some by blast
qed

lemma demo_t1: "stored_checkpoints demo_saver ''t1'' [] =
    [(''c1'', ((''ckpt'', ''c1''), (''meta'', []), None)),
     (''c2'', ((''ckpt'', ''c2''), (''meta'', []), Some ''c1''))]"
  by (simp add: stored_checkpoints_def demo_saver_def)

lemma demo_t1_max: "Max (set (map fst (stored_checkpoints demo_saver ''t1'' []))) = ''c2''"
  by (simp add: demo_t1 max_def)

text \<open>An id that is stored, one that is not, and the latest of a namespace and of none.\<close>

theorem get_tuple_resolution_witness:
  "get_checkpoint_id (demo_cfg ''t1'' (Some ''c1'')) = Some ''c1'' \<and> ''c1'' \<noteq> [] \<and>
   snd (get_tuple demo_env demo_saver (demo_cfg ''t1'' (Some ''c1''))) =
     Some (tuple_of demo_env demo_saver (demo_cfg ''t1'' (Some ''c1'')) ''t1'' [] ''c1''
            ((''ckpt'', ''c1''), (''meta'', []), None)) \<and>
   get_checkpoint_id (demo_cfg ''t1'' (Some ''c7'')) = Some ''c7'' \<and> ''c7'' \<noteq> [] \<and>
   snd (get_tuple demo_env demo_saver (demo_cfg ''t1'' (Some ''c7''))) = None \<and>
   get_checkpoint_id (demo_cfg ''t1'' None) = None \<and>
   stored_checkpoints demo_saver ''t1'' [] \<noteq> [] \<and>
   snd (get_tuple demo_env demo_saver (demo_cfg ''t1'' None)) =
     Some (tuple_of demo_env demo_saver (demo_cfg ''t1'' (Some ''c2'')) ''t1'' [] ''c2''
            ((''ckpt'', ''c2''), (''meta'', []), Some ''c1'')) \<and>
   get_checkpoint_id (demo_cfg ''t3'' None) = None \<and>
   stored_checkpoints demo_saver ''t3'' [] = [] \<and>
   snd (get_tuple demo_env demo_saver (demo_cfg ''t3'' None)) = None"
proof -
  have ids: "get_checkpoint_id (demo_cfg t i) = i" "thread_id (demo_cfg t i) = t"
    "checkpoint_ns (demo_cfg t i) = Some []" for t i
    by (simp_all add: get_checkpoint_id_def demo_cfg_def)
  have t3: "stored_checkpoints demo_saver ''t3'' [] = []"
    by (simp add: stored_checkpoints_def demo_saver_def)
  have c: "demo_cfg ''t1'' (Some ''c2'') =
      \<lparr>thread_id = ''t1'', checkpoint_ns = Some [], checkpoint_id = Some ''c2''\<rparr>"
    by (simp add: demo_cfg_def)
  note r = get_tuple_resolution [where env = demo_env and s = demo_saver, unfolded Let_def]
  from r [where cfg = "demo_cfg ''t1'' (Some ''c1'')"]
  have a: "snd (get_tuple demo_env demo_saver (demo_cfg ''t1'' (Some ''c1''))) =
     Some (tuple_of demo_env demo_saver (demo_cfg ''t1'' (Some ''c1'')) ''t1'' [] ''c1''
            ((''ckpt'', ''c1''), (''meta'', []), None))"
    by (simp add: ids demo_t1)
  from r [where cfg = "demo_cfg ''t1'' (Some ''c7'')"]
  have b: "snd (get_tuple demo_env demo_saver (demo_cfg ''t1'' (Some ''c7''))) = None"
    by (simp add: ids demo_t1)
  from r [where cfg = "demo_cfg ''t1'' None"]
  have l: "snd (get_tuple demo_env demo_saver (demo_cfg ''t1'' None)) =
     Some (tuple_of demo_env demo_saver (demo_cfg ''t1'' (Some ''c2'')) ''t1'' [] ''c2''
            ((''ckpt'', ''c2''), (''meta'', []), Some ''c1''))"
    by (simp add: ids demo_t1_max c) (simp add: demo_t1)
  from r [where cfg = "demo_cfg ''t3'' None"]
  have n: "snd (get_tuple demo_env demo_saver (demo_cfg ''t3'' None)) = None"
    by (simp add: ids t3)
  show ?thesis
    using a b l n t3 by (simp add: ids demo_t1)
qed

text \<open>
  The claim as it was stated fails at the explicit id that is the empty string: no
  checkpoint is stored under it, and the result is the latest checkpoint of the
  namespace, not \<open>None\<close>.
\<close>

theorem get_tuple_empty_id_counterexample:
  "get_checkpoint_id (demo_cfg ''t1'' (Some [])) = Some [] \<and>
   map_of (stored_checkpoints demo_saver ''t1'' []) [] = None \<and>
   snd (get_tuple demo_env demo_saver (demo_cfg ''t1'' (Some []))) =
     Some (tuple_of demo_env demo_saver (demo_cfg ''t1'' (Some ''c2'')) ''t1'' [] ''c2''
            ((''ckpt'', ''c2''), (''meta'', []), Some ''c1''))"
proof -
  have "snd (get_tuple demo_env demo_saver (demo_cfg ''t1'' (Some []))) =
     Some (tuple_of demo_env demo_saver (demo_cfg ''t1'' (Some ''c2'')) ''t1'' [] ''c2''
            ((''ckpt'', ''c2''), (''meta'', []), Some ''c1''))"
    by (simp add: get_tuple_stored Let_def demo_cfg_def get_checkpoint_id_def truthy_def demo_t1)
  then show ?thesis
    by (simp add: demo_t1 get_checkpoint_id_def demo_cfg_def)
qed

section \<open>Listing: the cursor\<close>

lemma list_checkpoints_loop_before:
  assumes "get_checkpoint_id b = Some X" and "X \<noteq> []"
  shows "list_checkpoints_loop env t ns ccid (Some b) flt items limit s = (limit', s', out) \<Longrightarrow>
     tup \<in> set out \<Longrightarrow> \<exists>cid. checkpoint_id (config tup) = Some cid \<and> cid < X"
proof (induction items arbitrary: limit s limit' s' out)
  case Nil
  then show ?case by simp
next
  case (Cons a items)
  obtain i ck mb par where a: "a = (i, (ck, mb, par))" by (metis prod_cases3 surj_pair)
  show ?case using Cons.prems Cons.IH assms unfolding a
    by (auto simp add: Let_def truthy_def not_le split: if_splits prod.splits)
qed

lemma list_ns_loop_before:
  assumes "get_checkpoint_id b = Some X" and "X \<noteq> []"
  shows "list_ns_loop env t cns ccid (Some b) flt nss limit s = (limit', s', out) \<Longrightarrow>
     tup \<in> set out \<Longrightarrow> \<exists>cid. checkpoint_id (config tup) = Some cid \<and> cid < X"
proof (induction nss arbitrary: limit s limit' s' out)
  case Nil
  then show ?case by simp
next
  case (Cons ns nss)
  show ?case
  proof (cases "cns \<noteq> None \<and> ns \<noteq> the cns")
    case True
    with Cons.prems Cons.IH show ?thesis by simp
  next
    case False
    obtain st1 cps where g: "storage_getitem (storage s) t ns = (st1, cps)"
      by (cases "storage_getitem (storage s) t ns")
    obtain l1 s1 out1 where n: "list_checkpoints_loop env t ns ccid (Some b) flt
        (sorted_reverse cps) limit (s\<lparr>storage := st1\<rparr>) = (l1, s1, out1)"
      by (metis prod_cases3)
    obtain l2 s2 out2 where r: "list_ns_loop env t cns ccid (Some b) flt nss l1 s1 = (l2, s2, out2)"
      by (metis prod_cases3)
    from Cons.prems(1) False g n r have out: "out = out1 @ out2"
      by (auto split: if_splits)
    with Cons.prems(2) consider "tup \<in> set out1" | "tup \<in> set out2" by auto
    then show ?thesis
    proof cases
      case 1
      with n show ?thesis by (rule list_checkpoints_loop_before [OF assms])
    next
      case 2
      with r show ?thesis by (rule Cons.IH)
    qed
  qed
qed

lemma list_thread_loop_before:
  assumes "get_checkpoint_id b = Some X" and "X \<noteq> []"
  shows "list_thread_loop env cns ccid (Some b) flt ts limit s = (limit', s', out) \<Longrightarrow>
     tup \<in> set out \<Longrightarrow> \<exists>cid. checkpoint_id (config tup) = Some cid \<and> cid < X"
proof (induction ts arbitrary: limit s limit' s' out)
  case Nil
  then show ?case by simp
next
  case (Cons t ts)
  obtain st1 nss where g: "getitem_default (storage s) t [] = (st1, nss)"
    by (cases "getitem_default (storage s) t []")
  obtain l1 s1 out1 where n: "list_ns_loop env t cns ccid (Some b) flt (map fst nss) limit
      (s\<lparr>storage := st1\<rparr>) = (l1, s1, out1)"
    by (metis prod_cases3)
  obtain l2 s2 out2 where r: "list_thread_loop env cns ccid (Some b) flt ts l1 s1 = (l2, s2, out2)"
    by (metis prod_cases3)
  from Cons.prems(1) g n r have out: "out = out1 @ out2" by simp
  with Cons.prems(2) consider "tup \<in> set out1" | "tup \<in> set out2" by auto
  then show ?case
  proof cases
    case 1
    with n show ?thesis by (rule list_ns_loop_before [OF assms])
  next
    case 2
    with r show ?thesis by (rule Cons.IH)
  qed
qed

text \<open>
  Claim C6, amended. When \<^verbatim>\<open>list\<close> is given a \<^verbatim>\<open>before\<close> config whose checkpoint id \<open>X\<close> is
  not the empty string, every tuple it yields, whatever the base config, the metadata
  filter and the limit, has a checkpoint id strictly below \<open>X\<close>: none is at or above the
  cursor.
\<close>

theorem list_before_strict_bound:
  assumes "get_checkpoint_id b = Some X" and "X \<noteq> []"
    and "tup \<in> set (snd (list_saver env s cfg flt (Some b) limit))"
  shows "\<exists>cid. checkpoint_id (config tup) = Some cid \<and> cid < X \<and> \<not> cid \<ge> X"
proof -
  obtain l1 s1 out where r: "list_thread_loop env
      (case cfg of Some c \<Rightarrow> checkpoint_ns c | None \<Rightarrow> None)
      (case cfg of Some c \<Rightarrow> get_checkpoint_id c | None \<Rightarrow> None) (Some b) flt
      (case cfg of Some c \<Rightarrow> [thread_id c] | None \<Rightarrow> map fst (storage s)) limit s = (l1, s1, out)"
    by (metis prod_cases3)
  with assms(3) have "tup \<in> set out"
    by (simp add: list_saver_def Let_def)
  with r have "\<exists>cid. checkpoint_id (config tup) = Some cid \<and> cid < X"
    by (rule list_thread_loop_before [OF assms(1,2)])
  then show ?thesis by auto
qed

text \<open>The two checkpoints of a thread, listed below the cursor \<open>c2\<close>.\<close>

theorem list_before_witness:
  "get_checkpoint_id (demo_cfg ''t1'' (Some ''c2'')) = Some ''c2'' \<and> ''c2'' \<noteq> [] \<and>
   map (checkpoint_id \<circ> config)
     (snd (list_saver demo_env demo_saver None None (Some (demo_cfg ''t1'' (Some ''c2''))) None))
     = [Some ''c1'', Some ''c1''] \<and>
   (''c1'' :: string) < ''c2''"
proof -
  have l: "map (checkpoint_id \<circ> config)
     (snd (list_saver demo_env demo_saver None None (Some (demo_cfg ''t1'' (Some ''c2''))) None))
     = [Some ''c1'', Some ''c1'']"
    by code_simp
  define L where "L = snd (list_saver demo_env demo_saver None None
      (Some (demo_cfg ''t1'' (Some ''c2''))) None)"
  from l have "map (checkpoint_id \<circ> config) L = [Some ''c1'', Some ''c1'']"
    by (simp only: L_def)
  then obtain tup rest where "L = tup # rest" "checkpoint_id (config tup) = Some ''c1''"
    by (cases L) simp_all
  then have tup: "tup \<in> set (snd (list_saver demo_env demo_saver None None
      (Some (demo_cfg ''t1'' (Some ''c2''))) None))" "checkpoint_id (config tup) = Some ''c1''"
    by (simp_all add: L_def [symmetric])
  have g: "get_checkpoint_id (demo_cfg ''t1'' (Some ''c2'')) = Some ''c2''"
    by (simp add: get_checkpoint_id_def demo_cfg_def)
  have ne: "''c2'' \<noteq> []" by simp
  from list_before_strict_bound [OF g ne tup(1)] tup(2) have "(''c1'' :: string) < ''c2''"
    by simp
  with l g show ?thesis by simp
qed

text \<open>
  The claim as it was stated fails at the cursor that is the empty string: the filter is
  skipped, and both checkpoints of the thread are yielded although every id is at or
  above the cursor.
\<close>

theorem list_before_empty_counterexample:
  "get_checkpoint_id (demo_cfg ''t1'' (Some [])) = Some [] \<and>
   map (checkpoint_id \<circ> config)
     (snd (list_saver demo_env demo_saver (Some (demo_cfg ''t1'' None)) None
            (Some (demo_cfg ''t1'' (Some []))) None))
     = [Some ''c2'', Some ''c1''] \<and>
   (''c2'' :: string) \<ge> [] \<and> (''c1'' :: string) \<ge> []"
proof -
  have "map (checkpoint_id \<circ> config)
     (snd (list_saver demo_env demo_saver (Some (demo_cfg ''t1'' None)) None
            (Some (demo_cfg ''t1'' (Some []))) None))
     = [Some ''c2'', Some ''c1'']"
    by code_simp
  then show ?thesis
    by (simp add: get_checkpoint_id_def demo_cfg_def)
qed

section \<open>Committing a checkpoint\<close>

lemma put_result:
  assumes "r < length h" and "checkpoint_ns cfg = Some ns" and "channel_values (h ! r) = Some vals"
  shows "put env s h cfg r md new_versions =
     (h @ [(h ! r)\<lparr>channel_values := None\<rparr>],
      Inr (s\<lparr>storage := storage_setitem (storage s) (thread_id cfg) ns (ckpt_id (h ! r))
                 (dumps_ckpt env ((h ! r)\<lparr>channel_values := None\<rparr>),
                  dumps_meta env (get_checkpoint_metadata env cfg md),
                  checkpoint_id cfg),
             blobs := put_blobs env (thread_id cfg) ns vals new_versions (blobs s)\<rparr>,
           \<lparr>thread_id = thread_id cfg, checkpoint_ns = Some ns,
            checkpoint_id = Some (ckpt_id (h ! r))\<rparr>))"
  using assms by (simp add: put_def Let_def nth_append)

lemma put_heap:
  "fst (put env s h cfg r md new_versions) = h \<or>
   fst (put env s h cfg r md new_versions) = h @ [h ! r] \<or>
   fst (put env s h cfg r md new_versions) = h @ [(h ! r)\<lparr>channel_values := None\<rparr>]"
  by (simp add: put_def Let_def nth_append split: option.splits)

lemma stored_checkpoints_setitem:
  "stored_checkpoints (s\<lparr>storage := storage_setitem (storage s) t ns cid e, blobs := bl\<rparr>) t ns =
     AList.update cid e (stored_checkpoints s t ns)"
  by (auto simp add: stored_checkpoints_def storage_setitem_def getitem_default_def
      update_conv' split: option.splits)

lemma put_blobs_lookup:
  "map_of (put_blobs env t ns vals nv bl) (t', ns', k, v) =
     (if t' = t \<and> ns' = ns \<and> (k, v) \<in> set nv then Some (blob_of env vals k)
      else map_of bl (t', ns', k, v))"
proof (induction nv arbitrary: bl)
  case Nil
  then show ?case by simp
next
  case (Cons a nv)
  obtain k' v' where a: "a = (k', v')" by (cases a)
  have step: "put_blobs env t ns vals (a # nv) bl =
      put_blobs env t ns vals nv (AList.update (t, ns, k', v') (blob_of env vals k') bl)"
    by (simp add: a blob_of_def)
  show ?case
  proof (cases "(t', ns', k, v) = (t, ns, k', v')")
    case True
    then show ?thesis
      unfolding step Cons.IH by (simp add: a update_conv')
  next
    case False
    then have u: "map_of (AList.update (t, ns, k', v') (blob_of env vals k') bl) (t', ns', k, v) =
        map_of bl (t', ns', k, v)"
      by (auto simp add: update_conv')
    from False have m: "(t' = t \<and> ns' = ns \<and> (k, v) \<in> set (a # nv)) =
        (t' = t \<and> ns' = ns \<and> (k, v) \<in> set nv)"
      by (auto simp add: a)
    show ?thesis
      unfolding step Cons.IH u m ..
  qed
qed

lemma load_blobs_loop_lookup:
  "distinct (map fst cv) \<Longrightarrow>
     map_of (load_blobs_loop env bl t ns cv acc) k =
       (case map_of cv k of
          None \<Rightarrow> map_of acc k
        | Some v \<Rightarrow>
            (case map_of bl (t, ns, k, v) of
               None \<Rightarrow> map_of acc k
             | Some vv \<Rightarrow> if fst vv \<noteq> ''empty'' then Some (loads_val env vv) else map_of acc k))"
proof (induction cv arbitrary: acc k)
  case Nil
  then show ?case by simp
next
  case (Cons a cv)
  obtain k' v' where a: "a = (k', v')" by (cases a)
  from Cons.prems a have d: "distinct (map fst cv)" and nk: "map_of cv k' = None"
    by (simp_all add: map_of_eq_None_iff)
  note IH = Cons.IH [OF d]
  show ?case
  proof (cases "k = k'")
    case True
    show ?thesis
      unfolding a True by (simp add: IH nk update_conv' split: option.splits)
  next
    case False
    then show ?thesis
      unfolding a by (simp add: IH update_conv' split: option.splits)
  qed
qed

text \<open>
  Claim C1, amended. Let \<^verbatim>\<open>put\<close> commit a checkpoint whose id is not the empty string,
  with channel values \<open>vals\<close>, under a config that has a namespace; let the serializer
  give back the stripped checkpoint and every value of \<open>vals\<close>, with a tag other than
  \<open>empty\<close>; and let the new versions cover the checkpoint's channel versions, which
  version every channel of \<open>vals\<close>. Then \<^verbatim>\<open>put\<close> returns the address of the checkpoint, and
  \<^verbatim>\<open>get_tuple\<close> on that address returns the checkpoint with channel values that are, as a
  dictionary, \<open>vals\<close>: a channel that is versioned and absent from \<open>vals\<close> was stored as
  the sentinel and is left out.
\<close>

theorem put_get_round_trip:
  assumes r: "r < length h"
    and ns: "checkpoint_ns cfg = Some ns"
    and vals: "channel_values (h ! r) = Some vals"
    and cid: "ckpt_id (h ! r) \<noteq> []"
    and ser_ckpt: "loads_ckpt env (dumps_ckpt env ((h ! r)\<lparr>channel_values := None\<rparr>)) =
        (h ! r)\<lparr>channel_values := None\<rparr>"
    and ser_val: "\<forall>k x. map_of vals k = Some x \<longrightarrow>
        fst (dumps_val env x) \<noteq> ''empty'' \<and> loads_val env (dumps_val env x) = x"
    and dist: "distinct (map fst (channel_versions (h ! r)))"
    and cover: "set (channel_versions (h ! r)) \<subseteq> set new_versions"
    and versioned: "fst ` set vals \<subseteq> fst ` set (channel_versions (h ! r))"
  shows "\<exists>s' h' cfg' tup cv.
      put env s h cfg r md new_versions = (h', Inr (s', cfg')) \<and>
      cfg' = \<lparr>thread_id = thread_id cfg, checkpoint_ns = Some ns,
              checkpoint_id = Some (ckpt_id (h ! r))\<rparr> \<and>
      snd (get_tuple env s' cfg') = Some tup \<and>
      config tup = cfg' \<and>
      checkpoint tup = (h ! r)\<lparr>channel_values := Some cv\<rparr> \<and>
      map_of cv = map_of vals"
proof -
  define t where "t = thread_id cfg"
  define c where "c = (h ! r)\<lparr>channel_values := None\<rparr>"
  define e where "e = (dumps_ckpt env c, dumps_meta env (get_checkpoint_metadata env cfg md),
      checkpoint_id cfg)"
  define bl where "bl = put_blobs env t ns vals new_versions (blobs s)"
  define s' where "s' = s\<lparr>storage := storage_setitem (storage s) t ns (ckpt_id (h ! r)) e,
      blobs := bl\<rparr>"
  define cfg' where "cfg' = \<lparr>thread_id = t, checkpoint_ns = Some ns,
      checkpoint_id = Some (ckpt_id (h ! r))\<rparr>"
  define cv where "cv = load_blobs_loop env bl t ns (channel_versions (h ! r)) []"
  have p: "put env s h cfg r md new_versions = (h @ [c], Inr (s', cfg'))"
    unfolding put_result [OF r ns vals] s'_def cfg'_def e_def bl_def c_def t_def ..
  have st: "map_of (stored_checkpoints s' t ns) (ckpt_id (h ! r)) = Some e"
    unfolding s'_def stored_checkpoints_setitem by (simp add: update_conv')
  have bs: "blobs s' = bl"
    by (simp add: s'_def)
  have mc: "merged_checkpoint env s' t ns (dumps_ckpt env c) = (h ! r)\<lparr>channel_values := Some cv\<rparr>"
    unfolding merged_checkpoint_def load_blobs_def Let_def bs cv_def
    using ser_ckpt by (simp add: c_def)
  have g: "snd (get_tuple env s' cfg') = Some (tuple_of env s' cfg' t ns (ckpt_id (h ! r)) e)"
    using cid st by (simp add: get_tuple_stored Let_def cfg'_def get_checkpoint_id_def truthy_def)
  have look: "map_of cv k = map_of vals k" for k
  proof (cases "map_of (channel_versions (h ! r)) k")
    case None
    then have "k \<notin> fst ` set (channel_versions (h ! r))"
      by (simp add: map_of_eq_None_iff)
    with versioned have "k \<notin> fst ` set vals" by auto
    then have "map_of vals k = None"
      by (simp add: map_of_eq_None_iff)
    with None show ?thesis
      by (simp add: cv_def load_blobs_loop_lookup [OF dist])
  next
    case (Some v)
    then have "(k, v) \<in> set (channel_versions (h ! r))"
      by (rule map_of_SomeD)
    with cover have "(k, v) \<in> set new_versions" by auto
    then have b: "map_of bl (t, ns, k, v) = Some (blob_of env vals k)"
      by (simp add: bl_def put_blobs_lookup)
    show ?thesis
    proof (cases "map_of vals k")
      case None
      with Some b show ?thesis
        by (simp add: cv_def load_blobs_loop_lookup [OF dist] blob_of_def)
    next
      case (Some x)
      with ser_val have "fst (dumps_val env x) \<noteq> ''empty''" "loads_val env (dumps_val env x) = x"
        by auto
      with Some \<open>map_of (channel_versions (h ! r)) k = Some v\<close> b show ?thesis
        by (simp add: cv_def load_blobs_loop_lookup [OF dist] blob_of_def)
    qed
  qed
  then have eq: "map_of cv = map_of vals" by (rule ext)
  have "config (tuple_of env s' cfg' t ns (ckpt_id (h ! r)) e) = cfg'"
    and "checkpoint (tuple_of env s' cfg' t ns (ckpt_id (h ! r)) e) =
      (h ! r)\<lparr>channel_values := Some cv\<rparr>"
    using mc by (simp_all add: tuple_of_def e_def)
  with p g eq show ?thesis
    unfolding cfg'_def t_def by blast
qed

text \<open>
  A checkpoint with the value of \<open>x\<close> and the versions of \<open>x\<close> and \<open>z\<close>, committed to
  the first thread: \<^verbatim>\<open>get_tuple\<close> gives back the value of \<open>x\<close>, and \<open>z\<close> is left out.
\<close>

theorem put_get_round_trip_witness:
  "(0::nat) < length (demo_heap ''c3'') \<and>
   checkpoint_ns (demo_cfg ''t1'' (Some ''c2'')) = Some [] \<and>
   channel_values (demo_heap ''c3'' ! 0) = Some [(''x'', ''9'')] \<and>
   ckpt_id (demo_heap ''c3'' ! 0) \<noteq> [] \<and>
   loads_ckpt demo_env (dumps_ckpt demo_env ((demo_heap ''c3'' ! 0)\<lparr>channel_values := None\<rparr>)) =
     (demo_heap ''c3'' ! 0)\<lparr>channel_values := None\<rparr> \<and>
   distinct (map fst (channel_versions (demo_heap ''c3'' ! 0))) \<and>
   (case snd (put demo_env demo_saver (demo_heap ''c3'') (demo_cfg ''t1'' (Some ''c2'')) 0 []
                demo_new_versions) of
      Inl err \<Rightarrow> False
    | Inr (s', cfg') \<Rightarrow>
        cfg' = demo_cfg ''t1'' (Some ''c3'') \<and>
        map_option (channel_values \<circ> checkpoint) (snd (get_tuple demo_env s' cfg')) =
          Some (Some [(''x'', ''9'')]) \<and>
        map_option parent_config (snd (get_tuple demo_env s' cfg')) =
          Some (Some (demo_cfg ''t1'' (Some ''c2''))))"
proof -
  have h0: "demo_heap ''c3'' ! 0 =
      \<lparr>ckpt_id = ''c3'', channel_values = Some [(''x'', ''9'')],
       channel_versions = [(''x'', VStr ''v9''), (''z'', VStr ''v9'')], other_fields = ()\<rparr>"
    by (simp add: demo_heap_def)
  have r: "(0::nat) < length (demo_heap ''c3'')"
    by (simp add: demo_heap_def)
  have ns: "checkpoint_ns (demo_cfg ''t1'' (Some ''c2'')) = Some []"
    by (simp add: demo_cfg_def)
  have vals: "channel_values (demo_heap ''c3'' ! 0) = Some [(''x'', ''9'')]"
    by (simp add: h0)
  have cid: "ckpt_id (demo_heap ''c3'' ! 0) \<noteq> []"
    by (simp add: h0)
  have ser_ckpt: "loads_ckpt demo_env
      (dumps_ckpt demo_env ((demo_heap ''c3'' ! 0)\<lparr>channel_values := None\<rparr>)) =
     (demo_heap ''c3'' ! 0)\<lparr>channel_values := None\<rparr>"
    by (simp add: h0 demo_env_def demo_ckpt_def)
  have ser_val: "\<forall>k x. map_of [(''x'', ''9'')] k = Some x \<longrightarrow>
      fst (dumps_val demo_env x) \<noteq> ''empty'' \<and> loads_val demo_env (dumps_val demo_env x) = x"
    by (simp add: demo_env_def)
  have dist: "distinct (map fst (channel_versions (demo_heap ''c3'' ! 0)))"
    by (simp add: h0)
  have cover: "set (channel_versions (demo_heap ''c3'' ! 0)) \<subseteq> set demo_new_versions"
    by (simp add: h0 demo_new_versions_def)
  have versioned: "fst ` set [(''x'', ''9'')] \<subseteq> fst ` set (channel_versions (demo_heap ''c3'' ! 0))"
    by (simp add: h0)
  from put_get_round_trip [OF r ns vals cid ser_ckpt ser_val dist cover versioned,
      where s = demo_saver and md = "[]"]
  obtain s' h' cfg' tup cv where
    p: "put demo_env demo_saver (demo_heap ''c3'') (demo_cfg ''t1'' (Some ''c2'')) 0 []
          demo_new_versions = (h', Inr (s', cfg'))"
    and c: "cfg' = \<lparr>thread_id = thread_id (demo_cfg ''t1'' (Some ''c2'')), checkpoint_ns = Some [],
              checkpoint_id = Some (ckpt_id (demo_heap ''c3'' ! 0))\<rparr>"
    and g: "snd (get_tuple demo_env s' cfg') = Some tup"
    and ck: "checkpoint tup = (demo_heap ''c3'' ! 0)\<lparr>channel_values := Some cv\<rparr>"
    and m: "map_of cv = map_of [(''x'', ''9'')]"
    by blast
  have c': "cfg' = demo_cfg ''t1'' (Some ''c3'')"
    by (simp add: c demo_cfg_def h0)
  have direct: "(case snd (put demo_env demo_saver (demo_heap ''c3'') (demo_cfg ''t1'' (Some ''c2'')) 0 []
                demo_new_versions) of
      Inl err \<Rightarrow> False
    | Inr (s', cfg') \<Rightarrow>
        cfg' = demo_cfg ''t1'' (Some ''c3'') \<and>
        map_option (channel_values \<circ> checkpoint) (snd (get_tuple demo_env s' cfg')) =
          Some (Some [(''x'', ''9'')]) \<and>
        map_option parent_config (snd (get_tuple demo_env s' cfg')) =
          Some (Some (demo_cfg ''t1'' (Some ''c2''))))"
    by code_simp
  from r ns vals cid ser_ckpt dist direct p c' g ck m show ?thesis
    by simp
qed

text \<open>
  The claim as it was stated fails for a checkpoint whose id is the empty string,
  committed to a namespace that holds other checkpoints: \<^verbatim>\<open>get_tuple\<close> on the address
  that \<^verbatim>\<open>put\<close> returned resolves to the latest checkpoint, whose channel values are not
  the ones committed.
\<close>

theorem put_get_empty_id_counterexample:
  "channel_values (demo_heap [] ! 0) = Some [(''x'', ''9'')] \<and>
   loads_ckpt demo_env (dumps_ckpt demo_env ((demo_heap [] ! 0)\<lparr>channel_values := None\<rparr>)) =
     (demo_heap [] ! 0)\<lparr>channel_values := None\<rparr> \<and>
   set (channel_versions (demo_heap [] ! 0)) \<subseteq> set demo_new_versions \<and>
   (case snd (put demo_env demo_saver (demo_heap []) (demo_cfg ''t1'' (Some ''c2'')) 0 []
                demo_new_versions) of
      Inl err \<Rightarrow> False
    | Inr (s', cfg') \<Rightarrow>
        cfg' = demo_cfg ''t1'' (Some []) \<and>
        map_option (channel_values \<circ> checkpoint) (snd (get_tuple demo_env s' cfg')) =
          Some (Some [(''x'', ''1''), (''y'', ''2'')])) \<and>
   map_of [(''x'', ''1''), (''y'', ''2'')] \<noteq> map_of [(''x'', ''9'')]"
proof -
  have h0: "demo_heap [] ! 0 =
      \<lparr>ckpt_id = [], channel_values = Some [(''x'', ''9'')],
       channel_versions = [(''x'', VStr ''v9''), (''z'', VStr ''v9'')], other_fields = ()\<rparr>"
    by (simp add: demo_heap_def)
  have ser_ckpt: "loads_ckpt demo_env
      (dumps_ckpt demo_env ((demo_heap [] ! 0)\<lparr>channel_values := None\<rparr>)) =
     (demo_heap [] ! 0)\<lparr>channel_values := None\<rparr>"
    by (simp add: h0 demo_env_def demo_ckpt_def)
  have cover: "set (channel_versions (demo_heap [] ! 0)) \<subseteq> set demo_new_versions"
    by (simp add: h0 demo_new_versions_def)
  have direct: "(case snd (put demo_env demo_saver (demo_heap []) (demo_cfg ''t1'' (Some ''c2'')) 0 []
                demo_new_versions) of
      Inl err \<Rightarrow> False
    | Inr (s', cfg') \<Rightarrow>
        cfg' = demo_cfg ''t1'' (Some []) \<and>
        map_option (channel_values \<circ> checkpoint) (snd (get_tuple demo_env s' cfg')) =
          Some (Some [(''x'', ''1''), (''y'', ''2'')]))"
    by code_simp
  have "map_of [(''x'', ''1''), (''y'', ''2'')] ''x'' \<noteq> map_of [(''x'', ''9'')] ''x''"
    by simp
  then have ne: "map_of [(''x'', ''1''), (''y'', ''2'')] \<noteq> map_of [(''x'', ''9'')]"
    by metis
  from ser_ckpt cover direct ne show ?thesis
    by (simp add: h0)
qed

text \<open>
  Claim C10. \<^verbatim>\<open>put\<close> leaves every object that was in the heap before the call as it
  was, whether it returns or raises; in particular the caller's checkpoint still has its
  \<^verbatim>\<open>channel_values\<close>. When the call gets as far as \<^verbatim>\<open>pop\<close>, the key is removed from the
  copy, a new object.
\<close>

theorem put_keeps_arguments:
  "take (length h) (fst (put env s h cfg r md new_versions)) = h \<and>
   (r < length h \<longrightarrow>
      fst (put env s h cfg r md new_versions) ! r = h ! r \<and>
      channel_values (fst (put env s h cfg r md new_versions) ! r) = channel_values (h ! r)) \<and>
   (r < length h \<and> checkpoint_ns cfg \<noteq> None \<and> channel_values (h ! r) \<noteq> None \<longrightarrow>
      fst (put env s h cfg r md new_versions) = h @ [(h ! r)\<lparr>channel_values := None\<rparr>] \<and>
      (\<exists>res. snd (put env s h cfg r md new_versions) = Inr res))"
proof -
  from put_heap [of env s h cfg r md new_versions]
  have t: "take (length h) (fst (put env s h cfg r md new_versions)) = h"
    by auto
  then have "fst (put env s h cfg r md new_versions) ! r = h ! r" if "r < length h"
    using that by (metis nth_take)
  moreover have "fst (put env s h cfg r md new_versions) = h @ [(h ! r)\<lparr>channel_values := None\<rparr>] \<and>
      (\<exists>res. snd (put env s h cfg r md new_versions) = Inr res)"
    if "r < length h \<and> checkpoint_ns cfg \<noteq> None \<and> channel_values (h ! r) \<noteq> None"
    using that by (auto simp add: put_result)
  ultimately show ?thesis
    using t by simp
qed

text \<open>The checkpoint committed above, read from the heap after the call.\<close>

theorem put_keeps_arguments_witness:
  "(0::nat) < length (demo_heap ''c3'') \<and>
   checkpoint_ns (demo_cfg ''t1'' (Some ''c2'')) \<noteq> None \<and>
   channel_values (demo_heap ''c3'' ! 0) \<noteq> None \<and>
   channel_values (fst (put demo_env demo_saver (demo_heap ''c3'') (demo_cfg ''t1'' (Some ''c2'')) 0 []
       demo_new_versions) ! 0) = Some [(''x'', ''9'')] \<and>
   channel_values (fst (put demo_env demo_saver (demo_heap ''c3'') (demo_cfg ''t1'' (Some ''c2'')) 0 []
       demo_new_versions) ! 1) = None \<and>
   length (fst (put demo_env demo_saver (demo_heap ''c3'') (demo_cfg ''t1'' (Some ''c2'')) 0 []
       demo_new_versions)) = 2"
proof -
  have h0: "demo_heap ''c3'' ! 0 =
      \<lparr>ckpt_id = ''c3'', channel_values = Some [(''x'', ''9'')],
       channel_versions = [(''x'', VStr ''v9''), (''z'', VStr ''v9'')], other_fields = ()\<rparr>"
    and len: "length (demo_heap ''c3'') = 1"
    by (simp_all add: demo_heap_def)
  have ns: "checkpoint_ns (demo_cfg ''t1'' (Some ''c2'')) \<noteq> None"
    by (simp add: demo_cfg_def)
  from put_keeps_arguments [of "demo_heap ''c3''" demo_env demo_saver "demo_cfg ''t1'' (Some ''c2'')"
      0 "[]" demo_new_versions] ns
  show ?thesis
    by (simp add: h0 len nth_append)
qed

section \<open>Staging writes\<close>

lemma staged_writes_lookup:
  "map_of (staged_writes s k) ik = staged_lookup (writes s) k ik"
  by (simp add: staged_writes_def staged_lookup_def split: option.splits)

lemma setitem_write:
  "getitem_default w ok [] = (w1, d) \<Longrightarrow>
     staged_lookup (AList.update ok (AList.update ik x d) w1) ok ik' =
       (if ik' = ik then Some x else staged_lookup w ok ik')"
  by (auto simp add: getitem_default_def staged_lookup_def update_conv' split: option.splits)

lemma dup_test:
  "(case (if present then map_of w ok else None) of None \<Rightarrow> False
    | Some d \<Rightarrow> d \<noteq> [] \<and> ik \<in> set (map fst d)) =
   (present \<and> staged_lookup w ok ik \<noteq> None)"
proof (cases present)
  case False
  then show ?thesis by simp
next
  case True
  show ?thesis
  proof (cases "map_of w ok")
    case None
    with True show ?thesis by (simp add: staged_lookup_def)
  next
    case (Some d)
    have "(d \<noteq> [] \<and> ik \<in> fst ` set d) = (ik \<in> fst ` set d)"
      by auto
    with True Some show ?thesis
      by (simp add: staged_lookup_def map_of_eq_None_iff)
  qed
qed

lemma put_writes_loop_step:
  "put_writes_loop env ok present task_id task_path ((idx, (c, v)) # rest) w =
     (if snd (inner_key_of env task_id idx c) \<ge> 0 \<and> present \<and>
         staged_lookup w ok (inner_key_of env task_id idx c) \<noteq> None
      then put_writes_loop env ok present task_id task_path rest w
      else put_writes_loop env ok present task_id task_path rest
             (AList.update ok
                (AList.update (inner_key_of env task_id idx c)
                   (task_id, c, dumps_val env v, task_path) (snd (getitem_default w ok [])))
                (fst (getitem_default w ok []))))"
  unfolding put_writes_loop.simps Let_def dup_test inner_key_of_def [symmetric] case_prod_unfold
  by (rule refl)

text \<open>One round of the loop, as a function of the table.\<close>

lemma put_writes_round:
  obtains (skip)
      "snd (inner_key_of env task_id idx c) \<ge> 0 \<and> present \<and>
          staged_lookup w ok (inner_key_of env task_id idx c) \<noteq> None"
      "put_writes_loop env ok present task_id task_path ((idx, (c, v)) # rest) w =
         put_writes_loop env ok present task_id task_path rest w"
  | (store) w' where
      "\<not> (snd (inner_key_of env task_id idx c) \<ge> 0 \<and> present \<and>
          staged_lookup w ok (inner_key_of env task_id idx c) \<noteq> None)"
      "put_writes_loop env ok present task_id task_path ((idx, (c, v)) # rest) w =
         put_writes_loop env ok present task_id task_path rest w'"
      "\<And>ik. staged_lookup w' ok ik =
         (if ik = inner_key_of env task_id idx c then Some (task_id, c, dumps_val env v, task_path)
          else staged_lookup w ok ik)"
proof (cases "snd (inner_key_of env task_id idx c) \<ge> 0 \<and> present \<and>
         staged_lookup w ok (inner_key_of env task_id idx c) \<noteq> None")
  case True
  have "put_writes_loop env ok present task_id task_path ((idx, (c, v)) # rest) w =
         put_writes_loop env ok present task_id task_path rest w"
    by (subst put_writes_loop_step) (rule if_P [OF True])
  with True show ?thesis by (rule skip)
next
  case False
  obtain w1 d where g: "getitem_default w ok [] = (w1, d)"
    by (cases "getitem_default w ok []")
  have "put_writes_loop env ok present task_id task_path ((idx, (c, v)) # rest) w =
         put_writes_loop env ok present task_id task_path rest
           (AList.update ok (AList.update (inner_key_of env task_id idx c)
              (task_id, c, dumps_val env v, task_path) (snd (getitem_default w ok [])))
              (fst (getitem_default w ok [])))"
    by (subst put_writes_loop_step) (rule if_not_P [OF False])
  then have e: "put_writes_loop env ok present task_id task_path ((idx, (c, v)) # rest) w =
         put_writes_loop env ok present task_id task_path rest
           (AList.update ok (AList.update (inner_key_of env task_id idx c)
              (task_id, c, dumps_val env v, task_path) d) w1)"
    by (simp only: g fst_conv snd_conv)
  show ?thesis
    using False e by (rule store) (rule setitem_write [OF g])
qed

lemma put_writes_loop_other:
  "\<forall>(idx, c, v) \<in> set L. inner_key_of env task_id idx c \<noteq> ik \<Longrightarrow>
     staged_lookup (put_writes_loop env ok present task_id task_path L w) ok ik =
       staged_lookup w ok ik"
proof (induction L arbitrary: w)
  case Nil
  then show ?case by simp
next
  case (Cons a L)
  obtain idx c v where a: "a = (idx, (c, v))" by (metis prod_cases3)
  from Cons.prems a have ne: "inner_key_of env task_id idx c \<noteq> ik"
    and rest: "\<forall>(idx, c, v) \<in> set L. inner_key_of env task_id idx c \<noteq> ik"
    by auto
  show ?case
  proof (cases rule: put_writes_round [of env task_id idx c present w ok task_path v L])
    case skip
    have "staged_lookup (put_writes_loop env ok present task_id task_path (a # L) w) ok ik =
        staged_lookup (put_writes_loop env ok present task_id task_path L w) ok ik"
      unfolding a skip(2) ..
    also have "\<dots> = staged_lookup w ok ik" by (rule Cons.IH [OF rest])
    finally show ?thesis .
  next
    case (store w')
    have "staged_lookup (put_writes_loop env ok present task_id task_path (a # L) w) ok ik =
        staged_lookup (put_writes_loop env ok present task_id task_path L w') ok ik"
      unfolding a store(2) ..
    also have "\<dots> = staged_lookup w' ok ik" by (rule Cons.IH [OF rest])
    also have "\<dots> = staged_lookup w ok ik" using ne by (simp add: store(3))
    finally show ?thesis .
  qed
qed

lemma put_writes_loop_keeps:
  "snd ik \<ge> 0 \<Longrightarrow> staged_lookup w ok ik = Some x \<Longrightarrow>
     staged_lookup (put_writes_loop env ok True task_id task_path L w) ok ik = Some x"
proof (induction L arbitrary: w)
  case Nil
  then show ?case by simp
next
  case (Cons a L)
  obtain idx c v where a: "a = (idx, (c, v))" by (metis prod_cases3)
  show ?case
  proof (cases rule: put_writes_round [of env task_id idx c True w ok task_path v L])
    case skip
    have "staged_lookup (put_writes_loop env ok True task_id task_path (a # L) w) ok ik =
        staged_lookup (put_writes_loop env ok True task_id task_path L w) ok ik"
      unfolding a skip(2) ..
    also have "\<dots> = Some x" using Cons.prems by (rule Cons.IH)
    finally show ?thesis .
  next
    case (store w')
    have "ik \<noteq> inner_key_of env task_id idx c"
    proof
      assume "ik = inner_key_of env task_id idx c"
      with Cons.prems have "snd (inner_key_of env task_id idx c) \<ge> 0 \<and> True \<and>
          staged_lookup w ok (inner_key_of env task_id idx c) \<noteq> None"
        by simp
      with store(1) show False ..
    qed
    with Cons.prems(2) have k: "staged_lookup w' ok ik = Some x"
      by (simp add: store(3))
    have "staged_lookup (put_writes_loop env ok True task_id task_path (a # L) w) ok ik =
        staged_lookup (put_writes_loop env ok True task_id task_path L w') ok ik"
      unfolding a store(2) ..
    also have "\<dots> = Some x" using Cons.prems(1) k by (rule Cons.IH)
    finally show ?thesis .
  qed
qed

lemma put_writes_loop_stays:
  "staged_lookup w ok ik \<noteq> None \<Longrightarrow>
     staged_lookup (put_writes_loop env ok present task_id task_path L w) ok ik \<noteq> None"
proof (induction L arbitrary: w)
  case Nil
  then show ?case by simp
next
  case (Cons a L)
  obtain idx c v where a: "a = (idx, (c, v))" by (metis prod_cases3)
  show ?case
  proof (cases rule: put_writes_round [of env task_id idx c present w ok task_path v L])
    case skip
    have "staged_lookup (put_writes_loop env ok present task_id task_path L w) ok ik \<noteq> None"
      using Cons.prems by (rule Cons.IH)
    then show ?thesis unfolding a skip(2) .
  next
    case (store w')
    from Cons.prems have "staged_lookup w' ok ik \<noteq> None"
      by (simp add: store(3))
    then have "staged_lookup (put_writes_loop env ok present task_id task_path L w') ok ik \<noteq> None"
      by (rule Cons.IH)
    then show ?thesis unfolding a store(2) .
  qed
qed

lemma put_writes_loop_present:
  "(idx, (c, v)) \<in> set L \<Longrightarrow>
     staged_lookup (put_writes_loop env ok present task_id task_path L w) ok
       (inner_key_of env task_id idx c) \<noteq> None"
proof (induction L arbitrary: w)
  case Nil
  then show ?case by simp
next
  case (Cons a L)
  obtain idx' c' v' where a: "a = (idx', (c', v'))" by (metis prod_cases3)
  show ?case
  proof (cases "(idx, (c, v)) = a")
    case True
    then have e: "a = (idx, (c, v))" by simp
    show ?thesis
    proof (cases rule: put_writes_round [of env task_id idx c present w ok task_path v L])
      case skip
      then have "staged_lookup w ok (inner_key_of env task_id idx c) \<noteq> None" by blast
      then have "staged_lookup (put_writes_loop env ok present task_id task_path L w) ok
          (inner_key_of env task_id idx c) \<noteq> None"
        by (rule put_writes_loop_stays)
      then show ?thesis unfolding e skip(2) .
    next
      case (store w')
      have "staged_lookup w' ok (inner_key_of env task_id idx c) \<noteq> None"
        by (simp add: store(3))
      then have "staged_lookup (put_writes_loop env ok present task_id task_path L w') ok
          (inner_key_of env task_id idx c) \<noteq> None"
        by (rule put_writes_loop_stays)
      then show ?thesis unfolding e store(2) .
    qed
  next
    case False
    with Cons.prems have m: "(idx, (c, v)) \<in> set L" by simp
    show ?thesis
    proof (cases rule: put_writes_round [of env task_id idx' c' present w ok task_path v' L])
      case skip
      show ?thesis unfolding a skip(2) using m by (rule Cons.IH)
    next
      case (store w')
      show ?thesis unfolding a store(2) using m by (rule Cons.IH)
    qed
  qed
qed

lemma inner_key_ordinal:
  "c \<notin> fst ` set (WRITES_IDX_MAP env) \<Longrightarrow> inner_key_of env task_id idx c = (task_id, int idx)"
  by (simp add: inner_key_of_def map_of_eq_None_iff [THEN iffD2])

lemma inner_key_eq_ordinal:
  assumes "\<forall>(c, j) \<in> set (WRITES_IDX_MAP env). j < 0"
    and "inner_key_of env task_id idx c = (task_id, int i)"
  shows "idx = i"
proof (cases "map_of (WRITES_IDX_MAP env) c")
  case None
  with assms(2) show ?thesis by (simp add: inner_key_of_def)
next
  case (Some j)
  then have "(c, j) \<in> set (WRITES_IDX_MAP env)" by (rule map_of_SomeD)
  with assms(1) have "j < 0" by auto
  with assms(2) Some show ?thesis by (simp add: inner_key_of_def)
qed

lemma put_writes_loop_first:
  assumes neg: "\<forall>(c, j) \<in> set (WRITES_IDX_MAP env). j < 0"
    and nonres: "c1 \<notin> fst ` set (WRITES_IDX_MAP env)"
  shows "(i, (c1, v1)) \<in> set L \<Longrightarrow> distinct (map fst L) \<Longrightarrow>
     staged_lookup w ok (task_id, int i) = None \<Longrightarrow>
     staged_lookup (put_writes_loop env ok present task_id task_path L w) ok (task_id, int i) =
       Some (task_id, c1, dumps_val env v1, task_path)"
proof (induction L arbitrary: w)
  case Nil
  then show ?case by simp
next
  case (Cons a L)
  obtain idx c v where a: "a = (idx, (c, v))" by (metis prod_cases3)
  from Cons.prems(2) a have nin: "idx \<notin> fst ` set L" and dL: "distinct (map fst L)"
    by simp_all
  show ?case
  proof (cases "idx = i")
    case True
    with Cons.prems(1) nin a have e: "c = c1" "v = v1"
      by (auto simp add: image_iff)
    have key: "inner_key_of env task_id idx c = (task_id, int i)"
      using nonres by (simp add: True e inner_key_ordinal)
    have others: "\<forall>(idx', c', v') \<in> set L. inner_key_of env task_id idx' c' \<noteq> (task_id, int i)"
    proof (clarify)
      fix idx' c' v'
      assume m: "(idx', c', v') \<in> set L" and k: "inner_key_of env task_id idx' c' = (task_id, int i)"
      from neg k have "idx' = i" by (rule inner_key_eq_ordinal)
      with m have "i \<in> fst ` set L" by force
      with nin True show False by simp
    qed
    show ?thesis
    proof (cases rule: put_writes_round [of env task_id idx c present w ok task_path v L])
      case skip
      with Cons.prems(3) key show ?thesis by simp
    next
      case (store w')
      have "staged_lookup (put_writes_loop env ok present task_id task_path (a # L) w) ok
          (task_id, int i) =
        staged_lookup (put_writes_loop env ok present task_id task_path L w') ok (task_id, int i)"
        unfolding a store(2) ..
      also have "\<dots> = staged_lookup w' ok (task_id, int i)"
        using others by (rule put_writes_loop_other)
      also have "\<dots> = Some (task_id, c1, dumps_val env v1, task_path)"
        using key by (simp add: store(3) e)
      finally show ?thesis .
    qed
  next
    case False
    with Cons.prems(1) a have m: "(i, (c1, v1)) \<in> set L" by simp
    have key: "inner_key_of env task_id idx c \<noteq> (task_id, int i)"
      using inner_key_eq_ordinal [OF neg] False by blast
    show ?thesis
    proof (cases rule: put_writes_round [of env task_id idx c present w ok task_path v L])
      case skip
      show ?thesis unfolding a skip(2) using m dL Cons.prems(3) by (rule Cons.IH)
    next
      case (store w')
      from key Cons.prems(3) have "staged_lookup w' ok (task_id, int i) = None"
        by (simp add: store(3))
      with m dL show ?thesis unfolding a store(2) by (rule Cons.IH)
    qed
  qed
qed

lemma put_writes_result:
  "checkpoint_id cfg = Some cid \<Longrightarrow>
     put_writes env s cfg ws task_id task_path =
       Inr (s\<lparr>writes :=
              put_writes_loop env
                (thread_id cfg, (case checkpoint_ns cfg of None \<Rightarrow> [] | Some n \<Rightarrow> n), cid)
                (map_of (writes s)
                   (thread_id cfg, (case checkpoint_ns cfg of None \<Rightarrow> [] | Some n \<Rightarrow> n), cid) \<noteq> None)
                task_id task_path (enumerate 0 ws) (writes s)\<rparr>)"
  by (simp add: put_writes_def Let_def)

lemma enumerate_mem: "i < length ws \<Longrightarrow> (i, ws ! i) \<in> set (enumerate 0 ws)"
  by (simp add: in_set_enumerate_eq)

text \<open>
  Claim C3. Two calls of \<^verbatim>\<open>put_writes\<close> for one checkpoint address and one task, each with
  a write at position \<open>i\<close> to a channel that is not in \<^verbatim>\<open>WRITES_IDX_MAP\<close>: both calls
  return, and the write staged under the task and the index \<open>i\<close> after the second call is
  the one staged after the first. When nothing was staged under that key before the
  first call (and the indices of the reserved channels are negative, as the spec has
  them), it is the write of the first call: its channel, its value serialized and its
  task path. The second call has dropped its write.
\<close>

theorem put_writes_first_write_wins:
  assumes cid: "checkpoint_id cfg = Some cid"
    and i1: "i < length ws1" and i2: "i < length ws2"
    and c1: "fst (ws1 ! i) \<notin> fst ` set (WRITES_IDX_MAP env)"
    and c2: "fst (ws2 ! i) \<notin> fst ` set (WRITES_IDX_MAP env)"
  shows "\<exists>s1 s2 x.
      put_writes env s cfg ws1 task_id p1 = Inr s1 \<and>
      put_writes env s1 cfg ws2 task_id p2 = Inr s2 \<and>
      map_of (staged_writes s1
        (thread_id cfg, (case checkpoint_ns cfg of None \<Rightarrow> [] | Some n \<Rightarrow> n), cid))
        (task_id, int i) = Some x \<and>
      map_of (staged_writes s2
        (thread_id cfg, (case checkpoint_ns cfg of None \<Rightarrow> [] | Some n \<Rightarrow> n), cid))
        (task_id, int i) = Some x \<and>
      ((\<forall>(c, j) \<in> set (WRITES_IDX_MAP env). j < 0) \<and>
       map_of (staged_writes s
        (thread_id cfg, (case checkpoint_ns cfg of None \<Rightarrow> [] | Some n \<Rightarrow> n), cid))
        (task_id, int i) = None \<longrightarrow>
         x = (task_id, fst (ws1 ! i), dumps_val env (snd (ws1 ! i)), p1))"
proof -
  define ok where "ok = (thread_id cfg, (case checkpoint_ns cfg of None \<Rightarrow> [] | Some n \<Rightarrow> n), cid)"
  define w1 where "w1 = put_writes_loop env ok (map_of (writes s) ok \<noteq> None) task_id p1
      (enumerate 0 ws1) (writes s)"
  define w2 where "w2 = put_writes_loop env ok (map_of w1 ok \<noteq> None) task_id p2
      (enumerate 0 ws2) w1"
  have r1: "put_writes env s cfg ws1 task_id p1 = Inr (s\<lparr>writes := w1\<rparr>)"
    unfolding put_writes_result [OF cid] w1_def ok_def ..
  have r2: "put_writes env (s\<lparr>writes := w1\<rparr>) cfg ws2 task_id p2 = Inr (s\<lparr>writes := w2\<rparr>)"
    unfolding put_writes_result [OF cid] w2_def ok_def by simp
  have k1: "inner_key_of env task_id i (fst (ws1 ! i)) = (task_id, int i)"
    using c1 by (rule inner_key_ordinal)
  have "(i, (fst (ws1 ! i), snd (ws1 ! i))) \<in> set (enumerate 0 ws1)"
    using enumerate_mem [OF i1] by simp
  then have "staged_lookup w1 ok (inner_key_of env task_id i (fst (ws1 ! i))) \<noteq> None"
    unfolding w1_def by (rule put_writes_loop_present)
  then obtain x where x: "staged_lookup w1 ok (task_id, int i) = Some x"
    unfolding k1 by blast
  then have pres: "map_of w1 ok \<noteq> None"
    by (auto simp add: staged_lookup_def split: option.splits)
  have "staged_lookup (put_writes_loop env ok True task_id p2 (enumerate 0 ws2) w1) ok
      (task_id, int i) = Some x"
    using _ x by (rule put_writes_loop_keeps) simp
  then have x2: "staged_lookup w2 ok (task_id, int i) = Some x"
    unfolding w2_def using pres by simp
  have first: "x = (task_id, fst (ws1 ! i), dumps_val env (snd (ws1 ! i)), p1)"
    if "(\<forall>(c, j) \<in> set (WRITES_IDX_MAP env). j < 0) \<and>
       map_of (staged_writes s ok) (task_id, int i) = None"
  proof -
    from that have neg: "\<forall>(c, j) \<in> set (WRITES_IDX_MAP env). j < 0"
      and fresh: "staged_lookup (writes s) ok (task_id, int i) = None"
      by (simp_all add: staged_writes_lookup)
    have "staged_lookup w1 ok (task_id, int i) =
        Some (task_id, fst (ws1 ! i), dumps_val env (snd (ws1 ! i)), p1)"
      unfolding w1_def
      using neg c1 _ _ fresh
    proof (rule put_writes_loop_first)
      show "(i, (fst (ws1 ! i), snd (ws1 ! i))) \<in> set (enumerate 0 ws1)"
        using enumerate_mem [OF i1] by simp
      show "distinct (map fst (enumerate 0 ws1))"
        by simp
    qed
    with x show ?thesis by simp
  qed
  show ?thesis
    unfolding ok_def [symmetric]
    using r1 r2 x x2 first
    by (intro exI [of _ "s\<lparr>writes := w1\<rparr>"] exI [of _ "s\<lparr>writes := w2\<rparr>"] exI [of _ x])
      (simp add: staged_writes_lookup)
qed

text \<open>
  The task \<open>k1\<close> writes \<open>a\<close> and then \<open>b\<close> to the channel \<open>x\<close> at index 0: the staged
  write, and the pending write that \<^verbatim>\<open>get_tuple\<close> shows, is \<open>a\<close>.
\<close>

theorem put_writes_first_write_wins_witness:
  "checkpoint_id (demo_cfg ''t1'' (Some ''c1'')) = Some ''c1'' \<and>
   (0::nat) < length [(''x'', ''a'')] \<and> (0::nat) < length [(''x'', ''b'')] \<and>
   fst ([(''x'', ''a'')] ! 0) \<notin> fst ` set (WRITES_IDX_MAP demo_env) \<and>
   list_all (\<lambda>(c, j). j < 0) (WRITES_IDX_MAP demo_env) \<and>
   map_of (staged_writes demo_saver (''t1'', [], ''c1'')) (''k1'', 0) = None \<and>
   (case put_writes demo_env demo_saver (demo_cfg ''t1'' (Some ''c1'')) [(''x'', ''a'')] ''k1'' [] of
      Inl err \<Rightarrow> False
    | Inr s1 \<Rightarrow>
        (case put_writes demo_env s1 (demo_cfg ''t1'' (Some ''c1'')) [(''x'', ''b'')] ''k1'' [] of
           Inl err \<Rightarrow> False
         | Inr s2 \<Rightarrow>
             staged_writes s2 (''t1'', [], ''c1'') =
               [((''k1'', 0), (''k1'', ''x'', (''str'', ''a''), []))] \<and>
             map_option pending_writes (snd (get_tuple demo_env s2 (demo_cfg ''t1'' (Some ''c1'')))) =
               Some [(''k1'', ''x'', ''a'')]))"
proof -
  have cid: "checkpoint_id (demo_cfg ''t1'' (Some ''c1'')) = Some ''c1''"
    by (simp add: demo_cfg_def)
  have i1: "(0::nat) < length [(''x'', ''a'')]" and i2: "(0::nat) < length [(''x'', ''b'')]"
    by simp_all
  have c1: "fst ([(''x'', ''a'')] ! 0) \<notin> fst ` set (WRITES_IDX_MAP demo_env)"
    and c2: "fst ([(''x'', ''b'')] ! 0) \<notin> fst ` set (WRITES_IDX_MAP demo_env)"
    by (simp_all add: demo_env_def)
  have neg: "\<forall>(c, j) \<in> set (WRITES_IDX_MAP demo_env). j < 0"
    by (simp add: demo_env_def)
  have neg_all: "list_all (\<lambda>(c, j). j < 0) (WRITES_IDX_MAP demo_env)"
    by (simp add: demo_env_def)
  have fresh: "map_of (staged_writes demo_saver (''t1'', [], ''c1'')) (''k1'', 0) = None"
    by (simp add: staged_writes_def demo_saver_def)
  have key: "(thread_id (demo_cfg ''t1'' (Some ''c1'')),
      (case checkpoint_ns (demo_cfg ''t1'' (Some ''c1'')) of None \<Rightarrow> [] | Some n \<Rightarrow> n), ''c1'') =
      (''t1'', [], ''c1'')"
    by (simp add: demo_cfg_def)
  from put_writes_first_write_wins [OF cid i1 i2 c1 c2, where s = demo_saver and task_id = "''k1''"
      and ?p1.0 = "[]" and ?p2.0 = "[]", unfolded key]
  obtain s1 s2 x where
    r1: "put_writes demo_env demo_saver (demo_cfg ''t1'' (Some ''c1'')) [(''x'', ''a'')] ''k1'' [] = Inr s1"
    and r2: "put_writes demo_env s1 (demo_cfg ''t1'' (Some ''c1'')) [(''x'', ''b'')] ''k1'' [] = Inr s2"
    and x2: "map_of (staged_writes s2 (''t1'', [], ''c1'')) (''k1'', int 0) = Some x"
    and first: "(\<forall>(c, j) \<in> set (WRITES_IDX_MAP demo_env). j < 0) \<and>
       map_of (staged_writes demo_saver (''t1'', [], ''c1'')) (''k1'', int 0) = None \<longrightarrow>
         x = (''k1'', fst ([(''x'', ''a'')] ! 0), dumps_val demo_env (snd ([(''x'', ''a'')] ! 0)), [])"
    by blast
  from first neg fresh have "x = (''k1'', ''x'', (''str'', ''a''), [])"
    by (simp add: demo_env_def)
  with x2 have kept: "map_of (staged_writes s2 (''t1'', [], ''c1'')) (''k1'', 0) =
      Some (''k1'', ''x'', (''str'', ''a''), [])"
    by simp
  have direct: "(case put_writes demo_env demo_saver (demo_cfg ''t1'' (Some ''c1'')) [(''x'', ''a'')] ''k1'' [] of
      Inl err \<Rightarrow> False
    | Inr s1 \<Rightarrow>
        (case put_writes demo_env s1 (demo_cfg ''t1'' (Some ''c1'')) [(''x'', ''b'')] ''k1'' [] of
           Inl err \<Rightarrow> False
         | Inr s2 \<Rightarrow>
             staged_writes s2 (''t1'', [], ''c1'') =
               [((''k1'', 0), (''k1'', ''x'', (''str'', ''a''), []))] \<and>
             map_option pending_writes (snd (get_tuple demo_env s2 (demo_cfg ''t1'' (Some ''c1'')))) =
               Some [(''k1'', ''x'', ''a'')]))"
    by code_simp
  from cid i1 i2 c1 neg_all fresh kept direct show ?thesis
    by blast
qed

section \<open>Listing: what the saver looks like to a reader\<close>

lemma same_view_refl: "same_view s s"
  by (simp add: same_view_def)

lemma same_view_trans: "same_view a b \<Longrightarrow> same_view b c \<Longrightarrow> same_view a c"
  by (simp add: same_view_def)

lemma same_view_sym: "same_view a b \<Longrightarrow> same_view b a"
  by (simp add: same_view_def)

lemma staged_touch: "staged_writes (touch_writes s k) k' = staged_writes s k'"
  by (auto simp add: staged_writes_def touch_writes_def getitem_default_def
      split: option.splits if_splits)

lemma same_view_touch: "same_view s (touch_writes s k)"
  by (simp add: same_view_def staged_touch) (simp add: touch_writes_def)

lemma same_view_touch_cong: "same_view s s' \<Longrightarrow> same_view (touch_writes s k) (touch_writes s' k)"
  by (simp add: same_view_def staged_touch) (simp add: touch_writes_def)

lemma tuple_of_cong:
  "same_view s s' \<Longrightarrow> tuple_of env s cfg t ns cid e = tuple_of env s' cfg t ns cid e"
  by (simp add: same_view_def tuple_of_def merged_checkpoint_def load_blobs_def)

lemma stored_checkpoints_cong:
  "same_view s s' \<Longrightarrow> stored_checkpoints s t ns = stored_checkpoints s' t ns"
  by (simp add: same_view_def stored_checkpoints_def)

lemma list_checkpoints_loop_Cons:
  "list_checkpoints_loop env t ns ccid before_cfg flt ((cid, (ck, mb, par)) # rest) limit s =
     (if truthy ccid \<and> cid \<noteq> the ccid
      then list_checkpoints_loop env t ns ccid before_cfg flt rest limit s
      else if (case before_cfg of
                 None \<Rightarrow> False
               | Some b \<Rightarrow> truthy (get_checkpoint_id b) \<and> cid \<ge> the (get_checkpoint_id b))
      then list_checkpoints_loop env t ns ccid before_cfg flt rest limit s
      else if (case flt of
                 None \<Rightarrow> False
               | Some f \<Rightarrow> f \<noteq> [] \<and>
                   \<not> list_all (\<lambda>(query_key, query_value).
                        query_value = md_get (loads_meta env mb) query_key) f)
      then list_checkpoints_loop env t ns ccid before_cfg flt rest limit s
      else if (case limit of None \<Rightarrow> False | Some l \<Rightarrow> l \<le> 0)
      then (limit, s, [])
      else
        (case list_checkpoints_loop env t ns ccid before_cfg flt rest
                (map_option (\<lambda>l. l - 1) limit) (touch_writes s (t, ns, cid)) of
           (limit2, s2, out) \<Rightarrow>
             (limit2, s2,
              tuple_of env s \<lparr>thread_id = t, checkpoint_ns = Some ns, checkpoint_id = Some cid\<rparr>
                t ns cid (ck, mb, par) # out)))"
proof -
  have tup: "\<lparr>config = \<lparr>thread_id = t, checkpoint_ns = Some ns, checkpoint_id = Some cid\<rparr>,
        checkpoint = merged_checkpoint env (s\<lparr>writes := fst (getitem_default (writes s) (t, ns, cid) [])\<rparr>)
          t ns ck,
        metadata = loads_meta env mb,
        parent_config = parent_of t ns par,
        pending_writes = decode_writes env (snd (getitem_default (writes s) (t, ns, cid) []))\<rparr> =
      tuple_of env s \<lparr>thread_id = t, checkpoint_ns = Some ns, checkpoint_id = Some cid\<rparr>
        t ns cid (ck, mb, par)"
    by (simp add: tuple_of_def merged_checkpoint_def load_blobs_def staged_writes_def
        snd_getitem_default)
  show ?thesis
    by (simp add: Let_def case_prod_beta tup touch_writes_def)
qed

declare list_checkpoints_loop.simps(2) [simp del]

lemma list_checkpoints_loop_view:
  "same_view s s' \<Longrightarrow>
     \<exists>l s1 s1' out.
       list_checkpoints_loop env t ns ccid before_cfg flt items limit s = (l, s1, out) \<and>
       list_checkpoints_loop env t ns ccid before_cfg flt items limit s' = (l, s1', out) \<and>
       same_view s1 s1' \<and> same_view s s1"
proof (induction items arbitrary: limit s s')
  case Nil
  then show ?case by (simp add: same_view_refl)
next
  case (Cons a items)
  obtain cid ck mb par where a: "a = (cid, (ck, mb, par))" by (metis prod_cases3)
  from Cons.IH [OF Cons.prems, of limit]
  obtain l s1 s1' out where skip:
    "list_checkpoints_loop env t ns ccid before_cfg flt items limit s = (l, s1, out)"
    "list_checkpoints_loop env t ns ccid before_cfg flt items limit s' = (l, s1', out)"
    "same_view s1 s1'" "same_view s s1"
    by blast
  from Cons.IH [OF same_view_touch_cong [OF Cons.prems, of "(t, ns, cid)"],
      of "map_option (\<lambda>l. l - 1) limit"]
  obtain l2 s2 s2' out2 where yield:
    "list_checkpoints_loop env t ns ccid before_cfg flt items (map_option (\<lambda>l. l - 1) limit)
       (touch_writes s (t, ns, cid)) = (l2, s2, out2)"
    "list_checkpoints_loop env t ns ccid before_cfg flt items (map_option (\<lambda>l. l - 1) limit)
       (touch_writes s' (t, ns, cid)) = (l2, s2', out2)"
    "same_view s2 s2'" "same_view (touch_writes s (t, ns, cid)) s2"
    by blast
  have v: "same_view s s2"
    using same_view_touch yield(4) by (rule same_view_trans)
  note tc = tuple_of_cong [OF Cons.prems]
  show ?case
    unfolding a list_checkpoints_loop_Cons
    using skip yield v Cons.prems by (simp add: tc same_view_refl)
qed

lemma storage_getitem_present:
  "map_of st t = Some nss \<Longrightarrow> ns \<in> fst ` set nss \<Longrightarrow>
     storage_getitem st t ns = (st, the (map_of nss ns))"
  by (auto simp add: storage_getitem_def getitem_default_def update_triv map_of_eq_None_iff
      split: option.splits)

lemma same_view_storage:
  "same_view s s' \<Longrightarrow> same_view (s\<lparr>storage := st\<rparr>) (s'\<lparr>storage := st\<rparr>)"
  by (simp add: same_view_def staged_writes_def)

lemma storage_same_view: "same_view s (s\<lparr>storage := storage s\<rparr>)"
  by (simp add: same_view_def)

lemma list_ns_loop_view:
  "same_view s s' \<Longrightarrow>
     \<exists>l s1 s1' out.
       list_ns_loop env t cns ccid before_cfg flt nsl limit s = (l, s1, out) \<and>
       list_ns_loop env t cns ccid before_cfg flt nsl limit s' = (l, s1', out) \<and>
       same_view s1 s1'"
proof (induction nsl arbitrary: limit s s')
  case Nil
  then show ?case by simp
next
  case (Cons ns nsl)
  show ?case
  proof (cases "cns \<noteq> None \<and> ns \<noteq> the cns")
    case True
    with Cons.IH [OF Cons.prems, of limit] show ?thesis by simp
  next
    case False
    obtain st1 cps where g: "storage_getitem (storage s) t ns = (st1, cps)"
      by (cases "storage_getitem (storage s) t ns")
    from Cons.prems have g': "storage_getitem (storage s') t ns = (st1, cps)"
      using g by (simp add: same_view_def)
    have "same_view (s\<lparr>storage := st1\<rparr>) (s'\<lparr>storage := st1\<rparr>)"
      using Cons.prems by (rule same_view_storage)
    from list_checkpoints_loop_view [OF this]
    obtain l1 s1 s1' out1 where inner:
      "list_checkpoints_loop env t ns ccid before_cfg flt (sorted_reverse cps) limit
         (s\<lparr>storage := st1\<rparr>) = (l1, s1, out1)"
      "list_checkpoints_loop env t ns ccid before_cfg flt (sorted_reverse cps) limit
         (s'\<lparr>storage := st1\<rparr>) = (l1, s1', out1)"
      "same_view s1 s1'"
      by blast
    from Cons.IH [OF inner(3), of l1]
    obtain l2 s2 s2' out2 where rest:
      "list_ns_loop env t cns ccid before_cfg flt nsl l1 s1 = (l2, s2, out2)"
      "list_ns_loop env t cns ccid before_cfg flt nsl l1 s1' = (l2, s2', out2)"
      "same_view s2 s2'"
      by blast
    from False g g' inner rest show ?thesis by auto
  qed
qed

lemma list_ns_loop_keeps:
  "map_of (storage s) t = Some nss \<Longrightarrow> set nsl \<subseteq> fst ` set nss \<Longrightarrow>
     \<exists>l s1 out.
       list_ns_loop env t cns ccid before_cfg flt nsl limit s = (l, s1, out) \<and> same_view s s1"
proof (induction nsl arbitrary: limit s)
  case Nil
  then show ?case by (simp add: same_view_refl)
next
  case (Cons ns nsl)
  from Cons.prems have sub: "set nsl \<subseteq> fst ` set nss" and mem: "ns \<in> fst ` set nss"
    by simp_all
  show ?case
  proof (cases "cns \<noteq> None \<and> ns \<noteq> the cns")
    case True
    with Cons.IH [OF Cons.prems(1) sub, of limit] show ?thesis by simp
  next
    case False
    have g: "storage_getitem (storage s) t ns = (storage s, the (map_of nss ns))"
      using Cons.prems(1) mem by (rule storage_getitem_present)
    from list_checkpoints_loop_view [OF same_view_refl]
    obtain l1 s1 out1 where inner:
      "list_checkpoints_loop env t ns ccid before_cfg flt (sorted_reverse (the (map_of nss ns))) limit
         s = (l1, s1, out1)"
      and v1: "same_view s s1"
      by blast
    then have "map_of (storage s1) t = Some nss"
      using Cons.prems(1) by (simp add: same_view_def)
    from Cons.IH [OF this sub, of l1]
    obtain l2 s2 out2 where rest:
      "list_ns_loop env t cns ccid before_cfg flt nsl l1 s1 = (l2, s2, out2)" "same_view s1 s2"
      by blast
    from v1 rest(2) have "same_view s s2" by (rule same_view_trans)
    with False g inner rest(1) show ?thesis by auto
  qed
qed

lemma list_thread_loop_view:
  "same_view s s' \<Longrightarrow>
     \<exists>l s1 s1' out.
       list_thread_loop env cns ccid before_cfg flt ths limit s = (l, s1, out) \<and>
       list_thread_loop env cns ccid before_cfg flt ths limit s' = (l, s1', out) \<and>
       same_view s1 s1'"
proof (induction ths arbitrary: limit s s')
  case Nil
  then show ?case by simp
next
  case (Cons t ths)
  obtain st1 nss where g: "getitem_default (storage s) t [] = (st1, nss)"
    by (cases "getitem_default (storage s) t []")
  from Cons.prems have g': "getitem_default (storage s') t [] = (st1, nss)"
    using g by (simp add: same_view_def)
  have "same_view (s\<lparr>storage := st1\<rparr>) (s'\<lparr>storage := st1\<rparr>)"
    using Cons.prems by (rule same_view_storage)
  from list_ns_loop_view [OF this]
  obtain l1 s1 s1' out1 where inner:
    "list_ns_loop env t cns ccid before_cfg flt (map fst nss) limit (s\<lparr>storage := st1\<rparr>) =
       (l1, s1, out1)"
    "list_ns_loop env t cns ccid before_cfg flt (map fst nss) limit (s'\<lparr>storage := st1\<rparr>) =
       (l1, s1', out1)"
    "same_view s1 s1'"
    by blast
  from Cons.IH [OF inner(3), of l1]
  obtain l2 s2 s2' out2 where rest:
    "list_thread_loop env cns ccid before_cfg flt ths l1 s1 = (l2, s2, out2)"
    "list_thread_loop env cns ccid before_cfg flt ths l1 s1' = (l2, s2', out2)"
    "same_view s2 s2'"
    by blast
  from g g' inner rest show ?case by auto
qed

lemma getitem_default_present:
  "k \<in> fst ` set d \<Longrightarrow> getitem_default d k dflt = (d, the (map_of d k))"
  by (auto simp add: getitem_default_def map_of_eq_None_iff split: option.splits)

lemma list_thread_loop_keeps:
  "set ths \<subseteq> fst ` set (storage s) \<Longrightarrow>
     \<exists>l s1 out.
       list_thread_loop env cns ccid before_cfg flt ths limit s = (l, s1, out) \<and> same_view s s1"
proof (induction ths arbitrary: limit s)
  case Nil
  then show ?case by (simp add: same_view_refl)
next
  case (Cons t ths)
  from Cons.prems have sub: "set ths \<subseteq> fst ` set (storage s)" and mem: "t \<in> fst ` set (storage s)"
    by simp_all
  define nss where "nss = the (map_of (storage s) t)"
  have g: "getitem_default (storage s) t [] = (storage s, nss)"
    unfolding nss_def using mem by (rule getitem_default_present)
  from mem have m: "map_of (storage s) t = Some nss"
    unfolding nss_def by (metis map_of_eq_None_iff option.exhaust_sel)
  have "set (map fst nss) \<subseteq> fst ` set nss" by simp
  from list_ns_loop_keeps [OF m this]
  obtain l1 s1 out1 where inner:
    "list_ns_loop env t cns ccid before_cfg flt (map fst nss) limit s = (l1, s1, out1)"
    and v1: "same_view s s1"
    by blast
  then have "set ths \<subseteq> fst ` set (storage s1)"
    using sub by (simp add: same_view_def)
  from Cons.IH [OF this, of l1]
  obtain l2 s2 out2 where rest:
    "list_thread_loop env cns ccid before_cfg flt ths l1 s1 = (l2, s2, out2)" "same_view s1 s2"
    by blast
  from v1 rest(2) have "same_view s s2" by (rule same_view_trans)
  with g inner rest(1) show ?case by auto
qed

section \<open>Listing: repeated calls\<close>

lemma list_saver_repeat:
  "snd (list_saver env (fst (list_saver env s cfg flt before_cfg limit)) cfg flt before_cfg limit) =
     snd (list_saver env s cfg flt before_cfg limit)"
proof -
  define cns where "cns = (case cfg of Some c \<Rightarrow> checkpoint_ns c | None \<Rightarrow> None)"
  define ccid where "ccid = (case cfg of Some c \<Rightarrow> get_checkpoint_id c | None \<Rightarrow> None)"
  define ths where "ths = (case cfg of Some c \<Rightarrow> [thread_id c] | None \<Rightarrow> map fst (storage s))"
  have ls: "list_saver env s' cfg flt before_cfg limit =
      (case list_thread_loop env cns ccid before_cfg flt
         (case cfg of Some c \<Rightarrow> [thread_id c] | None \<Rightarrow> map fst (storage s')) limit s' of
         (l, s1, out) \<Rightarrow> (s1, out))" for s'
    by (simp add: list_saver_def Let_def cns_def ccid_def split: prod.splits)
  show ?thesis
  proof (cases "set ths \<subseteq> fst ` set (storage s)")
    case True
    from list_thread_loop_keeps [OF True]
    obtain l s1 out where first: "list_thread_loop env cns ccid before_cfg flt ths limit s = (l, s1, out)"
      and v: "same_view s s1"
      by blast
    from list_thread_loop_view [OF v]
    obtain l' s2 s2' out' where both:
      "list_thread_loop env cns ccid before_cfg flt ths limit s = (l', s2, out')"
      "list_thread_loop env cns ccid before_cfg flt ths limit s1 = (l', s2', out')"
      by blast
    from v have "(case cfg of Some c \<Rightarrow> [thread_id c] | None \<Rightarrow> map fst (storage s1)) = ths"
      by (cases cfg) (simp_all add: ths_def same_view_def)
    with first both show ?thesis
      by (simp add: ls ths_def [symmetric])
  next
    case False
    then obtain c where c: "cfg = Some c" and absent: "thread_id c \<notin> fst ` set (storage s)"
      by (cases cfg) (auto simp add: ths_def)
    then have n: "map_of (storage s) (thread_id c) = None"
      by (simp add: map_of_eq_None_iff)
    then have first: "list_saver env s (Some c) flt before_cfg limit =
        (s\<lparr>storage := storage s @ [(thread_id c, [])]\<rparr>, [])"
      by (simp add: list_saver_def Let_def getitem_default_def)
    have "map_of (storage s @ [(thread_id c, [])]) (thread_id c) = Some []"
      using n by (simp add: map_add_def)
    then have "snd (list_saver env (s\<lparr>storage := storage s @ [(thread_id c, [])]\<rparr>) (Some c)
        flt before_cfg limit) = []"
      by (simp add: list_saver_def Let_def getitem_default_def)
    with first show ?thesis
      by (simp add: c)
  qed
qed

section \<open>Listing without filters\<close>

lemma ns_tuples_cong: "same_view s s' \<Longrightarrow> ns_tuples env s t ns = ns_tuples env s' t ns"
  by (simp add: ns_tuples_def tuple_of_cong [of s s'] stored_checkpoints_cong [of s s'])

lemma list_checkpoints_loop_unfiltered:
  "\<not> truthy ccid \<Longrightarrow>
     \<exists>s1. list_checkpoints_loop env t ns ccid None None items None s =
            (None, s1,
             map (\<lambda>(cid, e). tuple_of env s
                    \<lparr>thread_id = t, checkpoint_ns = Some ns, checkpoint_id = Some cid\<rparr> t ns cid e)
               items) \<and>
          same_view s s1"
proof (induction items arbitrary: s)
  case Nil
  then show ?case by (simp add: same_view_refl)
next
  case (Cons a items)
  obtain cid ck mb par where a: "a = (cid, (ck, mb, par))" by (metis prod_cases3)
  from Cons.IH [OF Cons.prems, of "touch_writes s (t, ns, cid)"]
  obtain s1 where r: "list_checkpoints_loop env t ns ccid None None items None
        (touch_writes s (t, ns, cid)) =
      (None, s1,
       map (\<lambda>(cid', e). tuple_of env (touch_writes s (t, ns, cid))
              \<lparr>thread_id = t, checkpoint_ns = Some ns, checkpoint_id = Some cid'\<rparr> t ns cid' e)
         items)"
    and v: "same_view (touch_writes s (t, ns, cid)) s1"
    by blast
  have v': "same_view s s1"
    using same_view_touch v by (rule same_view_trans)
  note tc = tuple_of_cong [OF same_view_touch [of s "(t, ns, cid)"], symmetric]
  show ?case
    unfolding a list_checkpoints_loop_Cons
    using Cons.prems r v' by (simp add: tc)
qed

lemma stored_checkpoints_present:
  "map_of (storage s) t = Some nss \<Longrightarrow> ns \<in> fst ` set nss \<Longrightarrow>
     stored_checkpoints s t ns = the (map_of nss ns)"
  by (auto simp add: stored_checkpoints_def map_of_eq_None_iff split: option.splits)

lemma list_ns_loop_unfiltered:
  "\<not> truthy ccid \<Longrightarrow> map_of (storage s) t = Some nss \<Longrightarrow> set nsl \<subseteq> fst ` set nss \<Longrightarrow>
     \<exists>s1. list_ns_loop env t cns ccid None None nsl None s =
            (None, s1,
             concat (map (ns_tuples env s t) (filter (\<lambda>ns. cns = None \<or> cns = Some ns) nsl))) \<and>
          same_view s s1"
proof (induction nsl arbitrary: s)
  case Nil
  then show ?case by (simp add: same_view_refl)
next
  case (Cons ns nsl)
  from Cons.prems have sub: "set nsl \<subseteq> fst ` set nss" and mem: "ns \<in> fst ` set nss"
    by simp_all
  show ?case
  proof (cases "cns = None \<or> cns = Some ns")
    case False
    then have skip: "cns \<noteq> None \<and> ns \<noteq> the cns" by auto
    have step: "list_ns_loop env t cns ccid None None (ns # nsl) None s =
        list_ns_loop env t cns ccid None None nsl None s"
      using skip by simp
    have f: "filter (\<lambda>ns. cns = None \<or> cns = Some ns) (ns # nsl) =
        filter (\<lambda>ns. cns = None \<or> cns = Some ns) nsl"
      using False by simp
    show ?thesis
      unfolding step f by (rule Cons.IH [OF Cons.prems(1,2) sub])
  next
    case True
    then have noskip: "\<not> (cns \<noteq> None \<and> ns \<noteq> the cns)" by auto
    have g: "storage_getitem (storage s) t ns = (storage s, stored_checkpoints s t ns)"
      using storage_getitem_present [OF Cons.prems(2) mem]
      by (simp add: stored_checkpoints_present [OF Cons.prems(2) mem])
    from list_checkpoints_loop_unfiltered [OF Cons.prems(1)]
    obtain s1 where inner: "list_checkpoints_loop env t ns ccid None None
          (sorted_reverse (stored_checkpoints s t ns)) None s = (None, s1, ns_tuples env s t ns)"
      and v1: "same_view s s1"
      unfolding ns_tuples_def by blast
    from v1 Cons.prems(2) have "map_of (storage s1) t = Some nss"
      by (simp add: same_view_def)
    from Cons.IH [OF Cons.prems(1) this sub]
    obtain s2 where rest: "list_ns_loop env t cns ccid None None nsl None s1 =
        (None, s2, concat (map (ns_tuples env s1 t) (filter (\<lambda>ns. cns = None \<or> cns = Some ns) nsl)))"
      and v2: "same_view s1 s2"
      by blast
    have c: "ns_tuples env s1 t = ns_tuples env s t"
      by (rule ext) (rule ns_tuples_cong [OF v1, symmetric])
    from v1 v2 have "same_view s s2" by (rule same_view_trans)
    with True noskip g inner rest show ?thesis
      by (auto simp add: c)
  qed
qed

lemma thread_tuples_cong:
  assumes "same_view s s'"
  shows "thread_tuples env s cns t = thread_tuples env s' cns t"
proof -
  have "ns_tuples env s t = ns_tuples env s' t"
    by (rule ext) (rule ns_tuples_cong [OF assms])
  moreover have "ns_keys s t = ns_keys s' t"
    using assms by (simp add: ns_keys_def same_view_def)
  ultimately show ?thesis
    by (simp add: thread_tuples_def)
qed

lemma list_thread_loop_unfiltered:
  "\<not> truthy ccid \<Longrightarrow> set ths \<subseteq> fst ` set (storage s) \<Longrightarrow>
     \<exists>s1. list_thread_loop env cns ccid None None ths None s =
            (None, s1, concat (map (thread_tuples env s cns) ths)) \<and>
          same_view s s1"
proof (induction ths arbitrary: s)
  case Nil
  then show ?case by (simp add: same_view_refl)
next
  case (Cons t ths)
  from Cons.prems have sub: "set ths \<subseteq> fst ` set (storage s)" and mem: "t \<in> fst ` set (storage s)"
    by simp_all
  define nss where "nss = the (map_of (storage s) t)"
  have g: "getitem_default (storage s) t [] = (storage s, nss)"
    unfolding nss_def using mem by (rule getitem_default_present)
  from mem have m: "map_of (storage s) t = Some nss"
    unfolding nss_def by (metis map_of_eq_None_iff option.exhaust_sel)
  have "set (map fst nss) \<subseteq> fst ` set nss" by simp
  from list_ns_loop_unfiltered [OF Cons.prems(1) m this]
  obtain s1 where inner: "list_ns_loop env t cns ccid None None (map fst nss) None s =
      (None, s1, thread_tuples env s cns t)"
    and v1: "same_view s s1"
    unfolding thread_tuples_def ns_keys_def m by auto
  from v1 sub have "set ths \<subseteq> fst ` set (storage s1)"
    by (simp add: same_view_def)
  from Cons.IH [OF Cons.prems(1) this]
  obtain s2 where rest: "list_thread_loop env cns ccid None None ths None s1 =
      (None, s2, concat (map (thread_tuples env s1 cns) ths))"
    and v2: "same_view s1 s2"
    by blast
  have c: "thread_tuples env s1 cns = thread_tuples env s cns"
    by (rule ext) (rule thread_tuples_cong [OF v1, symmetric])
  from v1 v2 have "same_view s s2" by (rule same_view_trans)
  with g inner rest show ?case
    by (simp add: c)
qed

lemma list_saver_unfiltered:
  assumes "case cfg of None \<Rightarrow> True | Some c \<Rightarrow> \<not> truthy (get_checkpoint_id c)"
  shows "snd (list_saver env s cfg None None None) =
     concat (map (thread_tuples env s (case cfg of Some c \<Rightarrow> checkpoint_ns c | None \<Rightarrow> None))
       (case cfg of Some c \<Rightarrow> [thread_id c] | None \<Rightarrow> map fst (storage s)))"
proof -
  define cns where "cns = (case cfg of Some c \<Rightarrow> checkpoint_ns c | None \<Rightarrow> None)"
  define ccid where "ccid = (case cfg of Some c \<Rightarrow> get_checkpoint_id c | None \<Rightarrow> None)"
  define ths where "ths = (case cfg of Some c \<Rightarrow> [thread_id c] | None \<Rightarrow> map fst (storage s))"
  from assms have nt: "\<not> truthy ccid"
    by (cases cfg) (simp_all add: ccid_def truthy_def)
  have ls: "list_saver env s cfg None None None =
      (case list_thread_loop env cns ccid None None ths None s of (l, s1, out) \<Rightarrow> (s1, out))"
    by (simp add: list_saver_def Let_def cns_def ccid_def ths_def split: prod.splits)
  show ?thesis
  proof (cases "set ths \<subseteq> fst ` set (storage s)")
    case True
    from list_thread_loop_unfiltered [OF nt True]
    obtain s1 where "list_thread_loop env cns ccid None None ths None s =
        (None, s1, concat (map (thread_tuples env s cns) ths))"
      by blast
    then show ?thesis
      unfolding ls cns_def [symmetric] ths_def [symmetric] by simp
  next
    case False
    then obtain c where c: "cfg = Some c" and absent: "thread_id c \<notin> fst ` set (storage s)"
      by (cases cfg) (auto simp add: ths_def)
    then have n: "map_of (storage s) (thread_id c) = None"
      by (simp add: map_of_eq_None_iff)
    then show ?thesis
      by (simp add: list_saver_def c getitem_default_def thread_tuples_def ns_keys_def)
  qed
qed

section \<open>Listing: the order within a namespace\<close>

lemma concat_pick:
  "distinct xs \<Longrightarrow> concat (map (\<lambda>x. if x = a then B else []) xs) = (if a \<in> set xs then B else [])"
  by (induction xs) auto

lemma ns_tuples_config:
  "tup \<in> set (ns_tuples env s t n) \<Longrightarrow>
     thread_id (config tup) = t \<and> checkpoint_ns (config tup) = Some n"
  by (auto simp add: ns_tuples_def tuple_of_def)

lemma filter_ns_tuples:
  "filter (\<lambda>tup. thread_id (config tup) = t0 \<and> checkpoint_ns (config tup) = Some n0)
     (ns_tuples env s t n) =
   (if n = n0 then (if t = t0 then ns_tuples env s t0 n0 else []) else [])"
proof (cases "t = t0 \<and> n = n0")
  case True
  then have "\<forall>tup \<in> set (ns_tuples env s t n).
      thread_id (config tup) = t0 \<and> checkpoint_ns (config tup) = Some n0"
    using ns_tuples_config by blast
  with True show ?thesis by simp
next
  case False
  then have "\<forall>tup \<in> set (ns_tuples env s t n).
      \<not> (thread_id (config tup) = t0 \<and> checkpoint_ns (config tup) = Some n0)"
    using ns_tuples_config by fastforce
  then have "filter (\<lambda>tup. thread_id (config tup) = t0 \<and> checkpoint_ns (config tup) = Some n0)
     (ns_tuples env s t n) = []"
    by (simp add: filter_empty_conv)
  with False show ?thesis by auto
qed

lemma ns_tuples_absent:
  assumes "n \<notin> set (ns_keys s t)"
  shows "ns_tuples env s t n = []"
proof -
  have "stored_checkpoints s t n = []"
  proof (cases "map_of (storage s) t")
    case None
    then show ?thesis by (simp add: stored_checkpoints_def)
  next
    case (Some nss)
    with assms have "n \<notin> fst ` set nss" by (simp add: ns_keys_def)
    then have "map_of nss n = None" by (simp add: map_of_eq_None_iff)
    with Some show ?thesis by (simp add: stored_checkpoints_def)
  qed
  then show ?thesis
    by (simp add: ns_tuples_def sorted_reverse_def)
qed

lemma filter_thread_tuples:
  assumes "distinct (ns_keys s t)"
  shows "filter (\<lambda>tup. thread_id (config tup) = t0 \<and> checkpoint_ns (config tup) = Some n0)
     (thread_tuples env s cns t) =
   (if t = t0 then (if cns = None \<or> cns = Some n0 then ns_tuples env s t0 n0 else []) else [])"
proof -
  let ?P = "\<lambda>tup. thread_id (config tup) = t0 \<and> checkpoint_ns (config tup) = Some n0"
  let ?ks = "filter (\<lambda>ns. cns = None \<or> cns = Some ns) (ns_keys s t)"
  let ?B = "if t = t0 then ns_tuples env s t0 n0 else []"
  have d: "distinct ?ks" using assms by simp
  have "filter ?P (thread_tuples env s cns t) =
      concat (map (\<lambda>n. filter ?P (ns_tuples env s t n)) ?ks)"
    by (simp add: thread_tuples_def filter_concat comp_def)
  also have "\<dots> = concat (map (\<lambda>n. if n = n0 then ?B else []) ?ks)"
    by (simp only: filter_ns_tuples)
  also have "\<dots> = (if n0 \<in> set ?ks then ?B else [])"
    using d by (rule concat_pick)
  also have "\<dots> = (if t = t0 then (if cns = None \<or> cns = Some n0 then ns_tuples env s t0 n0 else [])
      else [])"
    using ns_tuples_absent [of n0 s t0 env] by auto
  finally show ?thesis .
qed

lemma saver_ok_keys:
  assumes "saver_ok s"
  shows "distinct (map fst (storage s))" and "distinct (ns_keys s t)"
    and "distinct (map fst (stored_checkpoints s t n))"
proof -
  show "distinct (map fst (storage s))"
    using assms by (simp add: saver_ok_def)
  show "distinct (ns_keys s t)"
  proof (cases "map_of (storage s) t")
    case None
    then show ?thesis by (simp add: ns_keys_def)
  next
    case (Some nss)
    then have "(t, nss) \<in> set (storage s)" by (rule map_of_SomeD)
    with assms have "distinct (map fst nss)" by (auto simp add: saver_ok_def)
    with Some show ?thesis by (simp add: ns_keys_def)
  qed
  show "distinct (map fst (stored_checkpoints s t n))"
  proof (cases "map_of (storage s) t")
    case None
    then show ?thesis by (simp add: stored_checkpoints_def)
  next
    case (Some nss)
    then have m: "(t, nss) \<in> set (storage s)" by (rule map_of_SomeD)
    show ?thesis
    proof (cases "map_of nss n")
      case None
      with Some show ?thesis by (simp add: stored_checkpoints_def)
    next
      case (Some cps)
      then have "(n, cps) \<in> set nss" by (rule map_of_SomeD)
      with assms m have "distinct (map fst cps)" by (auto simp add: saver_ok_def)
      with Some \<open>map_of (storage s) t = Some nss\<close> show ?thesis
        by (simp add: stored_checkpoints_def)
    qed
  qed
qed

lemma sorted_reverse_keys:
  fixes cps :: "('k::linorder \<times> 'a) list"
  assumes "distinct (map fst cps)"
  shows "sorted_wrt (\<lambda>a b. b < a) (map fst (sorted_reverse cps))"
    and "set (map fst (sorted_reverse cps)) = fst ` set cps"
    and "length (sorted_reverse cps) = length cps"
proof -
  let ?xs = "sort_key fst (rev cps)"
  from assms have "distinct cps" and "inj_on fst (set cps)"
    by (simp_all add: distinct_map)
  then have "distinct (map fst ?xs)"
    by (simp add: distinct_map)
  moreover have "sorted (map fst ?xs)"
    by (rule sorted_sort_key)
  ultimately have "sorted_wrt (<) (map fst ?xs)"
    by (simp add: strict_sorted_iff)
  then show "sorted_wrt (\<lambda>a b. b < a) (map fst (sorted_reverse cps))"
    by (simp add: sorted_reverse_def rev_map [symmetric] sorted_wrt_rev)
  show "set (map fst (sorted_reverse cps)) = fst ` set cps"
    by (simp add: sorted_reverse_def)
  show "length (sorted_reverse cps) = length cps"
    by (simp add: sorted_reverse_def)
qed

lemma ns_tuples_ids:
  "map (checkpoint_id \<circ> config) (ns_tuples env s t n) =
     map (Some \<circ> fst) (sorted_reverse (stored_checkpoints s t n))"
  by (simp add: ns_tuples_def tuple_of_def case_prod_beta comp_def)

text \<open>
  Claim C5. Let the keys of the dictionaries of the checkpoint table be distinct, as they
  are in a Python dictionary, and let \<^verbatim>\<open>list\<close> be called without metadata filter, cursor
  and limit, for every thread or with a base config that names the thread \<open>t\<close>, no
  checkpoint id, and the namespace \<open>n\<close> or none. Then the tuples it yields for the thread
  \<open>t\<close> and the namespace \<open>n\<close> are the tuples of all checkpoints stored there, each once,
  and their ids are in strictly descending order. For any arguments, calling \<^verbatim>\<open>list\<close>
  again on the saver as the first call left it yields the same sequence.
\<close>

theorem list_descending_and_repeatable:
  assumes "saver_ok s"
    and "case cfg of
           None \<Rightarrow> True
         | Some c \<Rightarrow> \<not> truthy (get_checkpoint_id c) \<and> thread_id c = t \<and>
                     (checkpoint_ns c = None \<or> checkpoint_ns c = Some n)"
  shows "filter (\<lambda>tup. thread_id (config tup) = t \<and> checkpoint_ns (config tup) = Some n)
       (snd (list_saver env s cfg None None None)) = ns_tuples env s t n \<and>
     map (checkpoint_id \<circ> config) (ns_tuples env s t n) =
       map (Some \<circ> fst) (sorted_reverse (stored_checkpoints s t n)) \<and>
     sorted_wrt (\<lambda>a b. b < a) (map fst (sorted_reverse (stored_checkpoints s t n))) \<and>
     set (map fst (sorted_reverse (stored_checkpoints s t n))) = fst ` set (stored_checkpoints s t n) \<and>
     length (ns_tuples env s t n) = length (stored_checkpoints s t n) \<and>
     (\<forall>cfg' flt before_cfg limit.
        snd (list_saver env (fst (list_saver env s cfg' flt before_cfg limit)) cfg' flt before_cfg limit) =
          snd (list_saver env s cfg' flt before_cfg limit))"
proof -
  let ?P = "\<lambda>tup. thread_id (config tup) = t \<and> checkpoint_ns (config tup) = Some n"
  define cns where "cns = (case cfg of Some c \<Rightarrow> checkpoint_ns c | None \<Rightarrow> None)"
  define ths where "ths = (case cfg of Some c \<Rightarrow> [thread_id c] | None \<Rightarrow> map fst (storage s))"
  from assms(2) have nt: "case cfg of None \<Rightarrow> True | Some c \<Rightarrow> \<not> truthy (get_checkpoint_id c)"
    and m: "cns = None \<or> cns = Some n"
    by (cases cfg; simp add: cns_def)+
  have dths: "distinct ths"
    using saver_ok_keys(1) [OF assms(1)] by (cases cfg) (simp_all add: ths_def)
  have "filter ?P (snd (list_saver env s cfg None None None)) =
      concat (map (\<lambda>t'. filter ?P (thread_tuples env s cns t')) ths)"
    unfolding list_saver_unfiltered [OF nt] cns_def ths_def
    by (simp add: filter_concat comp_def)
  also have "\<dots> = concat (map (\<lambda>t'. if t' = t then ns_tuples env s t n else []) ths)"
    using m by (simp add: filter_thread_tuples [OF saver_ok_keys(2) [OF assms(1)]])
  also have "\<dots> = (if t \<in> set ths then ns_tuples env s t n else [])"
    using dths by (rule concat_pick)
  also have "\<dots> = ns_tuples env s t n"
  proof (cases "t \<in> set ths")
    case True
    then show ?thesis by simp
  next
    case False
    with assms(2) have "t \<notin> fst ` set (storage s)"
      by (cases cfg) (simp_all add: ths_def)
    then have "ns_keys s t = []"
      by (simp add: ns_keys_def map_of_eq_None_iff [THEN iffD2])
    then have "ns_tuples env s t n = []"
      by (simp add: ns_tuples_absent)
    then show ?thesis by simp
  qed
  finally have sel: "filter ?P (snd (list_saver env s cfg None None None)) = ns_tuples env s t n" .
  note d = saver_ok_keys(3) [OF assms(1), of t n]
  have len: "length (ns_tuples env s t n) = length (stored_checkpoints s t n)"
    by (simp add: ns_tuples_def sorted_reverse_keys(3) [OF d])
  show ?thesis
    using sel ns_tuples_ids sorted_reverse_keys(1,2) [OF d] len list_saver_repeat
    by (intro conjI allI)
qed

text \<open>The first thread of the saver, listed by its config and among all threads.\<close>

theorem list_descending_witness:
  "saver_ok demo_saver \<and>
   \<not> truthy (get_checkpoint_id (demo_cfg ''t1'' None)) \<and>
   thread_id (demo_cfg ''t1'' None) = ''t1'' \<and>
   checkpoint_ns (demo_cfg ''t1'' None) = Some [] \<and>
   map (checkpoint_id \<circ> config)
     (filter (\<lambda>tup. thread_id (config tup) = ''t1'' \<and> checkpoint_ns (config tup) = Some [])
        (snd (list_saver demo_env demo_saver (Some (demo_cfg ''t1'' None)) None None None))) =
     [Some ''c2'', Some ''c1''] \<and>
   map (checkpoint_id \<circ> config)
     (filter (\<lambda>tup. thread_id (config tup) = ''t1'' \<and> checkpoint_ns (config tup) = Some [])
        (snd (list_saver demo_env demo_saver None None None None))) =
     [Some ''c2'', Some ''c1''] \<and>
   map (checkpoint_id \<circ> config) (snd (list_saver demo_env demo_saver None None None None)) =
     [Some ''c2'', Some ''c1'', Some ''c1''] \<and>
   sorted_wrt (\<lambda>a b. b < a) [''c2'', ''c1'' :: string]"
proof -
  have ok: "saver_ok demo_saver"
    by (simp add: saver_ok_def demo_saver_def)
  have c: "case Some (demo_cfg ''t1'' None) of
           None \<Rightarrow> True
         | Some c \<Rightarrow> \<not> truthy (get_checkpoint_id c) \<and> thread_id c = ''t1'' \<and>
                     (checkpoint_ns c = None \<or> checkpoint_ns c = Some [])"
    by (simp add: demo_cfg_def get_checkpoint_id_def truthy_def)
  have a: "case (None :: config option) of
           None \<Rightarrow> True
         | Some c \<Rightarrow> \<not> truthy (get_checkpoint_id c) \<and> thread_id c = ''t1'' \<and>
                     (checkpoint_ns c = None \<or> checkpoint_ns c = Some [])"
    by simp
  have st: "sorted_reverse (stored_checkpoints demo_saver ''t1'' []) =
      [(''c2'', ((''ckpt'', ''c2''), (''meta'', []), Some ''c1'')),
       (''c1'', ((''ckpt'', ''c1''), (''meta'', []), None))]"
    by code_simp
  note by_cfg = list_descending_and_repeatable [OF ok c, where env = demo_env, unfolded st]
  note all = list_descending_and_repeatable [OF ok a, where env = demo_env, unfolded st]
  have whole: "map (checkpoint_id \<circ> config) (snd (list_saver demo_env demo_saver None None None None)) =
     [Some ''c2'', Some ''c1'', Some ''c1'']"
    by code_simp
  from by_cfg have 1: "map (checkpoint_id \<circ> config)
     (filter (\<lambda>tup. thread_id (config tup) = ''t1'' \<and> checkpoint_ns (config tup) = Some [])
        (snd (list_saver demo_env demo_saver (Some (demo_cfg ''t1'' None)) None None None))) =
     [Some ''c2'', Some ''c1'']"
    by simp
  from all have 2: "map (checkpoint_id \<circ> config)
     (filter (\<lambda>tup. thread_id (config tup) = ''t1'' \<and> checkpoint_ns (config tup) = Some [])
        (snd (list_saver demo_env demo_saver None None None None))) =
     [Some ''c2'', Some ''c1'']"
    by simp
  from by_cfg have 3: "sorted_wrt (\<lambda>a b. b < a) [''c2'', ''c1'' :: string]"
    by simp
  from ok c 1 2 3 whole show ?thesis
    by (simp add: demo_cfg_def)
qed

section \<open>Version generation: digits\<close>


















section \<open>Version generation: the format\<close>





















section \<open>Version generation: the next version\<close>






end
